theory Spec2Isabelle
  imports Main "HOL-Library.Log_Nat"
begin

chapter \<open>Textbook RSA: key generation and the keyed operations\<close>

text \<open>
  A shallow embedding of the module: \<open>generateRandomKeys\<close> and the classes \<open>PublicKey\<close> and
  \<open>PrivateKey\<close>, in both files that carry it. Bigints are \<open>int\<close>; the requested bit length
  is an integer-valued number, an \<open>int\<close> too.
\<close>

section \<open>JavaScript values reaching the constructors\<close>

text \<open>
  The constructors of \<open>PublicKey\<close> and \<open>PrivateKey\<close> coerce their arguments with
  \<open>BigInt(...)\<close> and test them for truthiness, so their arguments are modelled as
  JavaScript values: \<open>null\<close>, \<open>undefined\<close>, booleans, numbers (the finite ones as reals,
  \<open>NaN\<close> and the two infinities), bigints, strings of characters below code 256 and
  symbols. Objects and functions are left out.
\<close>

datatype js_value =
    JNull
  | JUndefined
  | JBool bool
  | JNumber real
  | JNaN
  | JPosInfinity
  | JNegInfinity
  | JBigInt int
  | JString string
  | JSymbol

text \<open>
  What a call can throw. \<open>BigInt\<close> throws a TypeError on \<open>null\<close>, \<open>undefined\<close> and a symbol,
  a RangeError on a number that is not an integer and a SyntaxError on a string that is no
  integer literal; \<open>ModInvFailed\<close> stands for the failure of the collaborator \<open>modInv\<close>.
\<close>

datatype js_error = TypeError | RangeError | SyntaxError | ModInvFailed

text \<open>
  The truthiness test of \<open>(p) ? ... : ...\<close>: the falsy values are \<open>null\<close>, \<open>undefined\<close>,
  \<open>false\<close>, \<open>0\<close>, \<open>NaN\<close>, \<open>BigInt(0)\<close> and the empty string.
\<close>

fun truthy :: "js_value \<Rightarrow> bool" where
  "truthy JNull = False"
| "truthy JUndefined = False"
| "truthy (JBool b) = b"
| "truthy (JNumber r) = (r \<noteq> 0)"
| "truthy JNaN = False"
| "truthy JPosInfinity = True"
| "truthy JNegInfinity = True"
| "truthy (JBigInt k) = (k \<noteq> 0)"
| "truthy (JString str) = (str \<noteq> [])"
| "truthy JSymbol = True"

text \<open>
  \<open>BigInt\<close> of a string reads an integer literal between white space: nothing (the value
  is \<open>0\<close>), decimal digits with an optional sign, or digits of radix 16, 8 or 2 after the
  prefix \<open>0x\<close>, \<open>0o\<close> or \<open>0b\<close>. \<open>None\<close> is the string that is no such literal.
\<close>

definition StrWhiteSpaceChar :: "char \<Rightarrow> bool" where
  "StrWhiteSpaceChar c \<longleftrightarrow> (of_char c :: nat) \<in> {9, 10, 11, 12, 13, 32, 160}"

definition trim_StrWhiteSpace :: "string \<Rightarrow> string" where
  "trim_StrWhiteSpace str =
     rev (dropWhile StrWhiteSpaceChar (rev (dropWhile StrWhiteSpaceChar str)))"

definition digit_value :: "char \<Rightarrow> nat option" where
  "digit_value c =
     (let k = (of_char c :: nat) in
      if 48 \<le> k \<and> k \<le> 57 then Some (k - 48)
      else if 97 \<le> k \<and> k \<le> 102 then Some (k - 87)
      else if 65 \<le> k \<and> k \<le> 70 then Some (k - 55)
      else None)"

primrec digits_from :: "nat \<Rightarrow> nat \<Rightarrow> string \<Rightarrow> nat option" where
  "digits_from radix acc [] = Some acc"
| "digits_from radix acc (c # cs) =
     (case digit_value c of
        None \<Rightarrow> None
      | Some d \<Rightarrow> if d < radix then digits_from radix (acc * radix + d) cs else None)"

definition digits_value :: "nat \<Rightarrow> string \<Rightarrow> nat option" where
  "digits_value radix ds = (if ds = [] then None else digits_from radix 0 ds)"

definition non_decimal_radix :: "string \<Rightarrow> nat option" where
  "non_decimal_radix lit =
     (case lit of
        z # x # ds \<Rightarrow>
          if z \<noteq> CHR ''0'' then None
          else if x = CHR ''x'' \<or> x = CHR ''X'' then Some 16
          else if x = CHR ''o'' \<or> x = CHR ''O'' then Some 8
          else if x = CHR ''b'' \<or> x = CHR ''B'' then Some 2
          else None
      | _ \<Rightarrow> None)"

definition StringToBigInt :: "string \<Rightarrow> int option" where
  "StringToBigInt str =
     (let lit = trim_StrWhiteSpace str in
      if lit = [] then Some 0
      else if hd lit = CHR ''+'' then map_option int (digits_value 10 (tl lit))
      else if hd lit = CHR ''-'' then map_option (\<lambda>k. - int k) (digits_value 10 (tl lit))
      else
        (case non_decimal_radix lit of
           Some radix \<Rightarrow> map_option int (digits_value radix (drop 2 lit))
         | None \<Rightarrow> map_option int (digits_value 10 lit)))"

text \<open>The coercion \<open>BigInt(v)\<close>.\<close>

fun BigInt :: "js_value \<Rightarrow> js_error + int" where
  "BigInt JNull = Inl TypeError"
| "BigInt JUndefined = Inl TypeError"
| "BigInt (JBool b) = Inr (if b then 1 else 0)"
| "BigInt (JNumber r) = (if of_int \<lfloor>r\<rfloor> = r then Inr \<lfloor>r\<rfloor> else Inl RangeError)"
| "BigInt JNaN = Inl RangeError"
| "BigInt JPosInfinity = Inl RangeError"
| "BigInt JNegInfinity = Inl RangeError"
| "BigInt (JBigInt k) = Inr k"
| "BigInt (JString str) =
     (case StringToBigInt str of None \<Rightarrow> Inl SyntaxError | Some k \<Rightarrow> Inr k)"
| "BigInt JSymbol = Inl TypeError"

text \<open>A default parameter \<open>p = null\<close>: an argument that is \<open>undefined\<close> becomes \<open>null\<close>.\<close>

definition default_null :: "js_value \<Rightarrow> js_value" where
  "default_null v = (if v = JUndefined then JNull else v)"

section \<open>The collaborators\<close>

text \<open>
  \<open>prime\<close>, \<open>bitLength\<close>, \<open>gcd\<close>, \<open>modInv\<close> and \<open>modPow\<close> are imported from the package
  \<open>bigint-crypto-utils\<close>, which is not part of the repository. They are parameters of
  the model. \<open>prime\<close> draws on an entropy source, so it takes the state \<open>'s\<close> of that source
  and returns the new one; \<open>modInv\<close> returns \<open>None\<close> where it fails. The other
  collaborators are taken to return a value on every call, as their signatures in the
  specification say: a prime source that throws is outside the model.
\<close>

record 's crypto =
  crypto_prime :: "int \<Rightarrow> 's \<Rightarrow> int \<times> 's"
  crypto_bitLength :: "int \<Rightarrow> int"
  crypto_gcd :: "int \<Rightarrow> int \<Rightarrow> int"
  crypto_modInv :: "int \<Rightarrow> int \<Rightarrow> int option"
  crypto_modPow :: "int \<Rightarrow> int \<Rightarrow> int \<Rightarrow> int"

section \<open>The module, first variant (the bundled file)\<close>

definition const_ONE :: int where
  "const_ONE = 1"

definition const_E :: int where
  "const_E = 65537"

subsection \<open>PublicKey\<close>

record PublicKey =
  pub_e :: int
  pub_n :: int

definition PublicKey_constructor :: "js_value \<Rightarrow> js_value \<Rightarrow> js_error + PublicKey" where
  "PublicKey_constructor e n =
     (case BigInt e of
        Inl err \<Rightarrow> Inl err
      | Inr e' \<Rightarrow>
          (case BigInt n of
             Inl err \<Rightarrow> Inl err
           | Inr n' \<Rightarrow> Inr \<lparr>pub_e = e', pub_n = n'\<rparr>))"

text \<open>The getter \<open>bitLength\<close> reads a property and calls the collaborator.\<close>

definition PublicKey_bitLength :: "'s crypto \<Rightarrow> PublicKey \<Rightarrow> int" where
  "PublicKey_bitLength c this = crypto_bitLength c (pub_n this)"

text \<open>
  The keyed operations are methods of an object whose fields JavaScript lets any code
  assign. Each is modelled by state passing: it returns its result together with the
  receiver as the call leaves it.
\<close>

definition PublicKey_encrypt :: "'s crypto \<Rightarrow> int \<Rightarrow> PublicKey \<Rightarrow> int \<times> PublicKey" where
  "PublicKey_encrypt c m this = (crypto_modPow c m (pub_e this) (pub_n this), this)"

definition PublicKey_verify :: "'s crypto \<Rightarrow> int \<Rightarrow> PublicKey \<Rightarrow> int \<times> PublicKey" where
  "PublicKey_verify c s this = (crypto_modPow c s (pub_e this) (pub_n this), this)"

subsection \<open>PrivateKey\<close>

text \<open>
  \<open>publicKey\<close> is a reference to the PublicKey object. No code of the module assigns a
  field of a PublicKey after its construction, so the reference is modelled by the value.
\<close>

record PrivateKey =
  priv_d :: int
  priv_p :: "int option"
  priv_q :: "int option"
  priv_phi :: "int option"
  priv_publicKey :: PublicKey

text \<open>The right-hand side \<open>(p) ? BigInt(p) : null\<close>; \<open>None\<close> is \<open>null\<close>.\<close>

definition BigInt_or_null :: "js_value \<Rightarrow> js_error + int option" where
  "BigInt_or_null v =
     (if truthy v
      then (case BigInt v of Inl err \<Rightarrow> Inl err | Inr k \<Rightarrow> Inr (Some k))
      else Inr None)"

definition PrivateKey_constructor ::
  "js_value \<Rightarrow> js_value \<Rightarrow> js_value \<Rightarrow> js_value \<Rightarrow> PublicKey \<Rightarrow> js_error + PrivateKey" where
  "PrivateKey_constructor d p q phi publicKey =
     (case BigInt d of
        Inl err \<Rightarrow> Inl err
      | Inr d' \<Rightarrow>
          (case BigInt_or_null (default_null p) of
             Inl err \<Rightarrow> Inl err
           | Inr p' \<Rightarrow>
               (case BigInt_or_null (default_null q) of
                  Inl err \<Rightarrow> Inl err
                | Inr q' \<Rightarrow>
                    (case BigInt_or_null (default_null phi) of
                       Inl err \<Rightarrow> Inl err
                     | Inr phi' \<Rightarrow>
                         Inr \<lparr>priv_d = d', priv_p = p', priv_q = q', priv_phi = phi',
                              priv_publicKey = publicKey\<rparr>))))"

definition PrivateKey_bitLength :: "'s crypto \<Rightarrow> PrivateKey \<Rightarrow> int" where
  "PrivateKey_bitLength c this = crypto_bitLength c (pub_n (priv_publicKey this))"

definition PrivateKey_n :: "PrivateKey \<Rightarrow> int" where
  "PrivateKey_n this = pub_n (priv_publicKey this)"

definition PrivateKey_sign :: "'s crypto \<Rightarrow> int \<Rightarrow> PrivateKey \<Rightarrow> int \<times> PrivateKey" where
  "PrivateKey_sign c m this =
     (crypto_modPow c m (priv_d this) (pub_n (priv_publicKey this)), this)"

definition PrivateKey_decrypt :: "'s crypto \<Rightarrow> int \<Rightarrow> PrivateKey \<Rightarrow> int \<times> PrivateKey" where
  "PrivateKey_decrypt c e this =
     (crypto_modPow c e (priv_d this) (pub_n (priv_publicKey this)), this)"

subsection \<open>generateRandomKeys\<close>

record KeyPair =
  kp_publicKey :: PublicKey
  kp_privateKey :: PrivateKey

text \<open>
  The \<open>do ... while\<close> loop. Nothing bounds the number of its rounds, so it is a partial
  function: \<open>None\<close> is the loop that never ends. It returns the locals \<open>p\<close>, \<open>q\<close>, \<open>n\<close>,
  \<open>phi\<close> of the round that leaves the loop and the state of the entropy source.
  \<open>bitLength\<close> is the requested bit length, an integer-valued number, and
  \<open>Math.floor(bitLength / 2)\<close> is \<open>bitLength div 2\<close>.
\<close>

partial_function (option) generateRandomKeys_loop ::
  "'s crypto \<Rightarrow> int \<Rightarrow> 's \<Rightarrow> ((int \<times> int \<times> int \<times> int) \<times> 's) option" where
  "generateRandomKeys_loop c bitLength s =
     (let (p, s1) = crypto_prime c (bitLength div 2 + 1) s;
          (q, s2) = crypto_prime c (bitLength div 2) s1;
          n = p * q;
          phi = (p - const_ONE) * (q - const_ONE)
      in if p = q \<or> crypto_bitLength c n \<noteq> bitLength \<or> \<not> (crypto_gcd c phi const_E = const_ONE)
         then generateRandomKeys_loop c bitLength s2
         else Some ((p, q, n, phi), s2))"

declare generateRandomKeys_loop.simps [code]

text \<open>
  The code after the loop. The parameter has the default \<open>2048\<close>: \<open>None\<close> is the call
  without an argument. A failure of \<open>modInv\<close> or of a constructor rejects the promise.
\<close>

definition generateRandomKeys ::
  "'s crypto \<Rightarrow> int option \<Rightarrow> 's \<Rightarrow> ((js_error + KeyPair) \<times> 's) option" where
  "generateRandomKeys c bitLength_arg s =
     (let bitLength = (case bitLength_arg of None \<Rightarrow> 2048 | Some b \<Rightarrow> b) in
      case generateRandomKeys_loop c bitLength s of
        None \<Rightarrow> None
      | Some ((p, q, n, phi), s') \<Rightarrow>
          Some
            (case crypto_modInv c const_E phi of
               None \<Rightarrow> Inl ModInvFailed
             | Some d \<Rightarrow>
                 (case PublicKey_constructor (JBigInt const_E) (JBigInt n) of
                    Inl err \<Rightarrow> Inl err
                  | Inr pub \<Rightarrow>
                      (case PrivateKey_constructor (JBigInt d) (JBigInt p) (JBigInt q)
                              (JBigInt phi) pub of
                         Inl err \<Rightarrow> Inl err
                       | Inr priv \<Rightarrow> Inr \<lparr>kp_publicKey = pub, kp_privateKey = priv\<rparr>)),
             s'))"

section \<open>The module, second variant (the ES module source)\<close>

text \<open>
  The second file holds the same module before bundling: the collaborators are reached
  through the namespace \<open>crypto\<close> and the parameter of \<open>generateRandomKeys\<close> is named
  \<open>bitLength\<close>. Its objects have the fields of the first variant's, so both share the
  record types; its functions carry the suffix \<open>2\<close>.
\<close>

definition const_ONE2 :: int where
  "const_ONE2 = 1"

definition const_E2 :: int where
  "const_E2 = 65537"

definition PublicKey_constructor2 :: "js_value \<Rightarrow> js_value \<Rightarrow> js_error + PublicKey" where
  "PublicKey_constructor2 e n =
     (case BigInt e of
        Inl err \<Rightarrow> Inl err
      | Inr e' \<Rightarrow>
          (case BigInt n of
             Inl err \<Rightarrow> Inl err
           | Inr n' \<Rightarrow> Inr \<lparr>pub_e = e', pub_n = n'\<rparr>))"

definition PublicKey_bitLength2 :: "'s crypto \<Rightarrow> PublicKey \<Rightarrow> int" where
  "PublicKey_bitLength2 crypto this = crypto_bitLength crypto (pub_n this)"

definition PublicKey_encrypt2 :: "'s crypto \<Rightarrow> int \<Rightarrow> PublicKey \<Rightarrow> int \<times> PublicKey" where
  "PublicKey_encrypt2 crypto m this = (crypto_modPow crypto m (pub_e this) (pub_n this), this)"

definition PublicKey_verify2 :: "'s crypto \<Rightarrow> int \<Rightarrow> PublicKey \<Rightarrow> int \<times> PublicKey" where
  "PublicKey_verify2 crypto s this = (crypto_modPow crypto s (pub_e this) (pub_n this), this)"

definition PrivateKey_constructor2 ::
  "js_value \<Rightarrow> js_value \<Rightarrow> js_value \<Rightarrow> js_value \<Rightarrow> PublicKey \<Rightarrow> js_error + PrivateKey" where
  "PrivateKey_constructor2 d p q phi publicKey =
     (case BigInt d of
        Inl err \<Rightarrow> Inl err
      | Inr d' \<Rightarrow>
          (case BigInt_or_null (default_null p) of
             Inl err \<Rightarrow> Inl err
           | Inr p' \<Rightarrow>
               (case BigInt_or_null (default_null q) of
                  Inl err \<Rightarrow> Inl err
                | Inr q' \<Rightarrow>
                    (case BigInt_or_null (default_null phi) of
                       Inl err \<Rightarrow> Inl err
                     | Inr phi' \<Rightarrow>
                         Inr \<lparr>priv_d = d', priv_p = p', priv_q = q', priv_phi = phi',
                              priv_publicKey = publicKey\<rparr>))))"

definition PrivateKey_bitLength2 :: "'s crypto \<Rightarrow> PrivateKey \<Rightarrow> int" where
  "PrivateKey_bitLength2 crypto this = crypto_bitLength crypto (pub_n (priv_publicKey this))"

definition PrivateKey_n2 :: "PrivateKey \<Rightarrow> int" where
  "PrivateKey_n2 this = pub_n (priv_publicKey this)"

definition PrivateKey_sign2 :: "'s crypto \<Rightarrow> int \<Rightarrow> PrivateKey \<Rightarrow> int \<times> PrivateKey" where
  "PrivateKey_sign2 crypto m this =
     (crypto_modPow crypto m (priv_d this) (pub_n (priv_publicKey this)), this)"

definition PrivateKey_decrypt2 :: "'s crypto \<Rightarrow> int \<Rightarrow> PrivateKey \<Rightarrow> int \<times> PrivateKey" where
  "PrivateKey_decrypt2 crypto e this =
     (crypto_modPow crypto e (priv_d this) (pub_n (priv_publicKey this)), this)"

partial_function (option) generateRandomKeys_loop2 ::
  "'s crypto \<Rightarrow> int \<Rightarrow> 's \<Rightarrow> ((int \<times> int \<times> int \<times> int) \<times> 's) option" where
  "generateRandomKeys_loop2 crypto bitLength s =
     (let (p, s1) = crypto_prime crypto (bitLength div 2 + 1) s;
          (q, s2) = crypto_prime crypto (bitLength div 2) s1;
          n = p * q;
          phi = (p - const_ONE2) * (q - const_ONE2)
      in if p = q \<or> crypto_bitLength crypto n \<noteq> bitLength
              \<or> \<not> (crypto_gcd crypto phi const_E2 = const_ONE2)
         then generateRandomKeys_loop2 crypto bitLength s2
         else Some ((p, q, n, phi), s2))"

declare generateRandomKeys_loop2.simps [code]

definition generateRandomKeys2 ::
  "'s crypto \<Rightarrow> int option \<Rightarrow> 's \<Rightarrow> ((js_error + KeyPair) \<times> 's) option" where
  "generateRandomKeys2 crypto bitLength_arg s =
     (let bitLength = (case bitLength_arg of None \<Rightarrow> 2048 | Some b \<Rightarrow> b) in
      case generateRandomKeys_loop2 crypto bitLength s of
        None \<Rightarrow> None
      | Some ((p, q, n, phi), s') \<Rightarrow>
          Some
            (case crypto_modInv crypto const_E2 phi of
               None \<Rightarrow> Inl ModInvFailed
             | Some d \<Rightarrow>
                 (case PublicKey_constructor2 (JBigInt const_E2) (JBigInt n) of
                    Inl err \<Rightarrow> Inl err
                  | Inr pub \<Rightarrow>
                      (case PrivateKey_constructor2 (JBigInt d) (JBigInt p) (JBigInt q)
                              (JBigInt phi) pub of
                         Inl err \<Rightarrow> Inl err
                       | Inr priv \<Rightarrow> Inr \<lparr>kp_publicKey = pub, kp_privateKey = priv\<rparr>)),
             s'))"

section \<open>The keyed operations with their effects explicit\<close>

text \<open>
  In JavaScript the call \<open>modPow(...)\<close> could read or change anything outside the key, and
  the body of a method could assign a field of \<open>this\<close>. To say that the keyed operations
  are pure, the four methods of the first variant are embedded once more with every effect
  they could have: \<open>modPow\<close> is a state transformer on the state \<open>'s\<close> of all that lies
  outside the key (the entropy source, the variables of the module), the key may carry
  further properties (a record scheme), and a call returns its result, the receiver as the
  call leaves it and the state as the call leaves it.
\<close>

type_synonym 's modPow_fx = "int \<Rightarrow> int \<Rightarrow> int \<Rightarrow> 's \<Rightarrow> int \<times> 's"

definition PublicKey_encrypt_fx ::
  "'s modPow_fx \<Rightarrow> int \<Rightarrow> 'a PublicKey_scheme \<Rightarrow> 's \<Rightarrow> int \<times> 'a PublicKey_scheme \<times> 's" where
  "PublicKey_encrypt_fx modPow m this s =
     (let (r, s') = modPow m (pub_e this) (pub_n this) s in (r, this, s'))"

definition PublicKey_verify_fx ::
  "'s modPow_fx \<Rightarrow> int \<Rightarrow> 'a PublicKey_scheme \<Rightarrow> 's \<Rightarrow> int \<times> 'a PublicKey_scheme \<times> 's" where
  "PublicKey_verify_fx modPow sig this s =
     (let (r, s') = modPow sig (pub_e this) (pub_n this) s in (r, this, s'))"

definition PrivateKey_sign_fx ::
  "'s modPow_fx \<Rightarrow> int \<Rightarrow> 'a PrivateKey_scheme \<Rightarrow> 's \<Rightarrow> int \<times> 'a PrivateKey_scheme \<times> 's" where
  "PrivateKey_sign_fx modPow m this s =
     (let (r, s') = modPow m (priv_d this) (pub_n (priv_publicKey this)) s in (r, this, s'))"

definition PrivateKey_decrypt_fx ::
  "'s modPow_fx \<Rightarrow> int \<Rightarrow> 'a PrivateKey_scheme \<Rightarrow> 's \<Rightarrow> int \<times> 'a PrivateKey_scheme \<times> 's" where
  "PrivateKey_decrypt_fx modPow e this s =
     (let (r, s') = modPow e (priv_d this) (pub_n (priv_publicKey this)) s in (r, this, s'))"

text \<open>
  A pure \<open>modPow\<close>: a call leaves the state as it found it, and its result does not depend
  on the state. This is the collaborator's side of the purity of the operations.
\<close>

definition pure_modPow :: "'s modPow_fx \<Rightarrow> bool" where
  "pure_modPow modPow \<longleftrightarrow>
     (\<forall>b e n s s'. snd (modPow b e n s) = s \<and> fst (modPow b e n s) = fst (modPow b e n s'))"

text \<open>
  A \<open>modPow\<close> that is not pure, for comparison: it counts its calls in the state and adds
  the count to its result.
\<close>

definition counting_modPow :: "nat modPow_fx" where
  "counting_modPow b e n s = (b ^ nat e mod n + int s, Suc s)"

section \<open>The rounds of the generation loop\<close>

text \<open>
  One sampling round: the two calls of \<open>prime\<close> in the source's order, threading the state
  of the entropy source.
\<close>

definition sample_round :: "'s crypto \<Rightarrow> int \<Rightarrow> 's \<Rightarrow> int \<times> int \<times> 's" where
  "sample_round c B s =
     (let (p, s1) = crypto_prime c (B div 2 + 1) s;
          (q, s2) = crypto_prime c (B div 2) s1
      in (p, q, s2))"

text \<open>
  The combined predicate of the specification: \<open>p \<noteq> q\<close>, \<open>bitLength(n) == B\<close> and
  \<open>gcd(\<phi>, 65537) == 1\<close>. The loop condition of the source is its negation.
\<close>

definition gate :: "'s crypto \<Rightarrow> int \<Rightarrow> int \<Rightarrow> int \<Rightarrow> bool" where
  "gate c B p q \<longleftrightarrow>
     p \<noteq> q \<and> crypto_bitLength c (p * q) = B \<and> crypto_gcd c ((p - 1) * (q - 1)) 65537 = 1"

text \<open>The state of the entropy source before round \<open>k\<close> (rounds count from \<open>0\<close>).\<close>

fun round_state :: "'s crypto \<Rightarrow> int \<Rightarrow> 's \<Rightarrow> nat \<Rightarrow> 's" where
  "round_state c B s 0 = s"
| "round_state c B s (Suc k) = round_state c B (snd (snd (sample_round c B s))) k"

definition round_p :: "'s crypto \<Rightarrow> int \<Rightarrow> 's \<Rightarrow> nat \<Rightarrow> int" where
  "round_p c B s k = fst (sample_round c B (round_state c B s k))"

definition round_q :: "'s crypto \<Rightarrow> int \<Rightarrow> 's \<Rightarrow> nat \<Rightarrow> int" where
  "round_q c B s k = fst (snd (sample_round c B (round_state c B s k)))"

definition round_ok :: "'s crypto \<Rightarrow> int \<Rightarrow> 's \<Rightarrow> nat \<Rightarrow> bool" where
  "round_ok c B s k = gate c B (round_p c B s k) (round_q c B s k)"

definition round_result ::
  "'s crypto \<Rightarrow> int \<Rightarrow> 's \<Rightarrow> nat \<Rightarrow> (int \<times> int \<times> int \<times> int) \<times> 's" where
  "round_result c B s k =
     (let p = round_p c B s k; q = round_q c B s k
      in ((p, q, p * q, (p - 1) * (q - 1)), round_state c B s (Suc k)))"

text \<open>
  What the code after the loop makes of the primes \<open>p\<close> and \<open>q\<close> of the accepted round
  (steps 5 to 7 of the specification): \<open>d = modInv(e, \<phi>)\<close>, then \<open>PublicKey(e, n)\<close> and
  \<open>PrivateKey(d, p, q, \<phi>, publicKey)\<close>, with the constructors evaluated on bigints. A zero
  is falsy, so the constructor of PrivateKey stores it as \<open>null\<close>.
\<close>

definition nonzero_or_null :: "int \<Rightarrow> int option" where
  "nonzero_or_null x = (if x = 0 then None else Some x)"

definition keys_of_primes :: "'s crypto \<Rightarrow> int \<Rightarrow> int \<Rightarrow> js_error + KeyPair" where
  "keys_of_primes c p q =
     (case crypto_modInv c 65537 ((p - 1) * (q - 1)) of
        None \<Rightarrow> Inl ModInvFailed
      | Some d \<Rightarrow>
          Inr \<lparr>kp_publicKey = \<lparr>pub_e = 65537, pub_n = p * q\<rparr>,
               kp_privateKey =
                 \<lparr>priv_d = d, priv_p = nonzero_or_null p, priv_q = nonzero_or_null q,
                  priv_phi = nonzero_or_null ((p - 1) * (q - 1)),
                  priv_publicKey = \<lparr>pub_e = 65537, pub_n = p * q\<rparr>\<rparr>\<rparr>)"

section \<open>The contracts of the collaborators\<close>

text \<open>
  The specification gives each collaborator a contract. A theorem that needs a contract
  takes it as a hypothesis.
\<close>

text \<open>
  Modelled from the spec: the contract of \<open>modPow(base, exponent, modulus)\<close>, modular
  exponentiation, for an exponent that is not negative and a positive modulus.
\<close>

definition modPow_contract :: "'s crypto \<Rightarrow> bool" where
  "modPow_contract c \<longleftrightarrow>
     (\<forall>b e n. 0 \<le> e \<longrightarrow> 0 < n \<longrightarrow> crypto_modPow c b e n = b ^ nat e mod n)"

text \<open>
  Modelled from the spec: the contract of \<open>modInv(a, m)\<close> for a positive \<open>m\<close>. It returns
  the modular inverse of \<open>a\<close> modulo \<open>m\<close>, a residue of \<open>m\<close>, and it fails exactly when
  \<open>gcd(a, m) \<noteq> 1\<close>.
\<close>

definition modInv_contract :: "'s crypto \<Rightarrow> bool" where
  "modInv_contract c \<longleftrightarrow>
     (\<forall>a m. 0 < m \<longrightarrow>
        (case crypto_modInv c a m of
           None \<Rightarrow> gcd a m \<noteq> 1
         | Some x \<Rightarrow> gcd a m = 1 \<and> 0 \<le> x \<and> x < m \<and> a * x mod m = 1 mod m))"

text \<open>Modelled from the spec: the contract of \<open>gcd(a, b)\<close>, the greatest common divisor.\<close>

definition gcd_contract :: "'s crypto \<Rightarrow> bool" where
  "gcd_contract c \<longleftrightarrow> (\<forall>a b. crypto_gcd c a b = gcd a b)"

text \<open>
  Modelled from the spec: the contract of \<open>bitLength(x)\<close>, the number of bits of the binary
  representation of \<open>x\<close>, for a positive \<open>x\<close>.
\<close>

definition bitLength_contract :: "'s crypto \<Rightarrow> bool" where
  "bitLength_contract c \<longleftrightarrow>
     (\<forall>x. 0 < x \<longrightarrow>
        0 < crypto_bitLength c x \<and>
        2 ^ nat (crypto_bitLength c x - 1) \<le> x \<and> x < 2 ^ nat (crypto_bitLength c x))"

text \<open>
  Modelled from the spec: a genuine prime, and a prime source that returns only genuine
  primes (the collaborator \<open>prime\<close> promises probable primes).
\<close>

definition is_prime :: "int \<Rightarrow> bool" where
  "is_prime p \<longleftrightarrow> 1 < p \<and> (\<forall>d\<in>{2..<p}. \<not> d dvd p)"

definition genuine_primes :: "'s crypto \<Rightarrow> bool" where
  "genuine_primes c \<longleftrightarrow> (\<forall>bits s. is_prime (fst (crypto_prime c bits s)))"

text \<open>
  Modelled from the spec: a prime source whose numbers are positive, as every number with
  a given count of significant bits is.
\<close>

definition positive_primes :: "'s crypto \<Rightarrow> bool" where
  "positive_primes c \<longleftrightarrow> (\<forall>bits s. 0 < fst (crypto_prime c bits s))"

section \<open>Collaborators that meet the contracts\<close>

text \<open>
  Modelled from the spec: \<open>modInv\<close> of the package \<open>bigint-crypto-utils\<close>, which is not
  in the repository. The inverse is read off the Bezout coefficients of \<open>a mod m\<close> and \<open>m\<close>.
\<close>

definition spec_modInv :: "int \<Rightarrow> int \<Rightarrow> int option" where
  "spec_modInv a m =
     (if 0 < m \<and> gcd a m = 1 then Some (fst (bezw (nat (a mod m)) (nat m)) mod m) else None)"

text \<open>
  Modelled from the spec: \<open>modPow\<close> of the package \<open>bigint-crypto-utils\<close>, which is not
  in the repository.
\<close>

definition spec_modPow :: "int \<Rightarrow> int \<Rightarrow> int \<Rightarrow> int" where
  "spec_modPow b e n = b ^ nat e mod n"

text \<open>
  Modelled from the spec: the five collaborators over a given prime source, with
  \<open>bitLength\<close> and \<open>gcd\<close> the library's \<open>bitlen\<close> and \<open>gcd\<close>.
\<close>

definition spec_crypto :: "(int \<Rightarrow> 's \<Rightarrow> int \<times> 's) \<Rightarrow> 's crypto" where
  "spec_crypto prime =
     \<lparr>crypto_prime = prime, crypto_bitLength = bitlen, crypto_gcd = gcd,
      crypto_modInv = spec_modInv, crypto_modPow = spec_modPow\<rparr>"

text \<open>
  Prime sources for concrete runs; the state counts the calls. \<open>delayed_prime N\<close> answers
  the first \<open>2 * N\<close> calls with \<open>13\<close> and \<open>5\<close>, whose product \<open>65\<close> has seven bits, and the
  later ones with \<open>11\<close> and \<open>5\<close>, whose product \<open>55\<close> has six; \<open>stuck_prime\<close> answers \<open>13\<close>
  and \<open>5\<close> for ever. \<open>prime128\<close> answers with the primes \<open>2^64 + 13\<close> and \<open>2^64 - 59\<close>.
\<close>

definition delayed_prime :: "nat \<Rightarrow> int \<Rightarrow> nat \<Rightarrow> int \<times> nat" where
  "delayed_prime N bits s = (if bits = 4 then (if s < 2 * N then 13 else 11) else 5, Suc s)"

definition stuck_prime :: "int \<Rightarrow> nat \<Rightarrow> int \<times> nat" where
  "stuck_prime bits s = (if bits = 4 then 13 else 5, Suc s)"

definition prime128 :: "int \<Rightarrow> nat \<Rightarrow> int \<times> nat" where
  "prime128 bits s =
     (if bits = 65 then 18446744073709551629 else 18446744073709551557, Suc s)"

section \<open>The loop, round by round\<close>

lemma loop_body_eq:
  "(let (p, s1) = crypto_prime c (B div 2 + 1) s;
        (q, s2) = crypto_prime c (B div 2) s1;
        n = p * q;
        phi = (p - const_ONE) * (q - const_ONE)
    in if p = q \<or> crypto_bitLength c n \<noteq> B \<or> \<not> (crypto_gcd c phi const_E = const_ONE)
       then f c B s2
       else Some ((p, q, n, phi), s2)) =
   (case sample_round c B s of
      (p, q, s2) \<Rightarrow>
        if gate c B p q then Some ((p, q, p * q, (p - 1) * (q - 1)), s2) else f c B s2)"
  by (simp add: sample_round_def gate_def const_ONE_def const_E_def Let_def split: prod.splits)

lemma round_ok_0:
  "round_ok c B s 0 = gate c B (fst (sample_round c B s)) (fst (snd (sample_round c B s)))"
  by (simp add: round_ok_def round_p_def round_q_def)

lemma round_ok_Suc: "round_ok c B s (Suc k) = round_ok c B (snd (snd (sample_round c B s))) k"
  by (simp add: round_ok_def round_p_def round_q_def)

lemma round_result_0:
  "round_result c B s 0 =
   (case sample_round c B s of (p, q, s2) \<Rightarrow> ((p, q, p * q, (p - 1) * (q - 1)), s2))"
  by (simp add: round_result_def round_p_def round_q_def Let_def split: prod.splits)

lemma round_result_Suc:
  "round_result c B s (Suc k) = round_result c B (snd (snd (sample_round c B s))) k"
  by (simp add: round_result_def round_p_def round_q_def)

lemma loop_body_round:
  "(case sample_round c B s of
      (p, q, s2) \<Rightarrow>
        if gate c B p q then Some ((p, q, p * q, (p - 1) * (q - 1)), s2) else f c B s2) =
   (if round_ok c B s 0 then Some (round_result c B s 0)
    else f c B (snd (snd (sample_round c B s))))"
  by (simp add: round_ok_0 round_result_0 split: prod.splits)

lemma loop_unfold:
  "generateRandomKeys_loop c B s =
   (if round_ok c B s 0 then Some (round_result c B s 0)
    else generateRandomKeys_loop c B (snd (snd (sample_round c B s))))"
  by (subst generateRandomKeys_loop.simps) (simp only: loop_body_eq loop_body_round)

lemma loop_first_ok:
  "round_ok c B s k \<Longrightarrow> (\<forall>j<k. \<not> round_ok c B s j) \<Longrightarrow>
   generateRandomKeys_loop c B s = Some (round_result c B s k)"
proof (induction k arbitrary: s)
  case 0
  then show ?case
    by (subst loop_unfold) simp
next
  case (Suc k)
  let ?s2 = "snd (snd (sample_round c B s))"
  from Suc.prems have rej: "\<not> round_ok c B s 0" by blast
  have ok: "round_ok c B ?s2 k" using Suc.prems(1) by (simp add: round_ok_Suc)
  have before: "\<forall>j<k. \<not> round_ok c B ?s2 j"
  proof (intro allI impI)
    fix j assume "j < k"
    then have "\<not> round_ok c B s (Suc j)" using Suc.prems(2) by simp
    then show "\<not> round_ok c B ?s2 j" by (simp add: round_ok_Suc)
  qed
  have "generateRandomKeys_loop c B s = generateRandomKeys_loop c B ?s2"
    using rej by (subst loop_unfold) simp
  also have "\<dots> = Some (round_result c B ?s2 k)" by (rule Suc.IH[OF ok before])
  finally show ?case by (simp add: round_result_Suc)
qed

lemma loop_Some_round:
  assumes "generateRandomKeys_loop c B s = Some r"
  shows "\<exists>k. round_ok c B s k \<and> (\<forall>j<k. \<not> round_ok c B s j) \<and> r = round_result c B s k"
proof (rule generateRandomKeys_loop.raw_induct
    [where P = "\<lambda>c B s r. \<exists>k. round_ok c B s k \<and> (\<forall>j<k. \<not> round_ok c B s j) \<and> r = round_result c B s k",
     OF _ assms])
  fix loop :: "'a crypto \<Rightarrow> int \<Rightarrow> 'a \<Rightarrow> ((int \<times> int \<times> int \<times> int) \<times> 'a) option"
  fix c B s r
  assume IH: "\<And>c B s r. loop c B s = Some r \<Longrightarrow>
     \<exists>k. round_ok c B s k \<and> (\<forall>j<k. \<not> round_ok c B s j) \<and> r = round_result c B s k"
  assume "(let (p, s1) = crypto_prime c (B div 2 + 1) s;
          (q, s2) = crypto_prime c (B div 2) s1; n = p * q;
          phi = (p - const_ONE) * (q - const_ONE)
      in if p = q \<or> crypto_bitLength c n \<noteq> B \<or> crypto_gcd c phi const_E \<noteq> const_ONE
         then loop c B s2 else Some ((p, q, n, phi), s2)) = Some r"
  then have step: "(if round_ok c B s 0 then Some (round_result c B s 0)
      else loop c B (snd (snd (sample_round c B s)))) = Some r"
    by (simp only: loop_body_eq [where f = loop] loop_body_round [where f = loop] not_not)
  let ?s2 = "snd (snd (sample_round c B s))"
  show "\<exists>k. round_ok c B s k \<and> (\<forall>j<k. \<not> round_ok c B s j) \<and> r = round_result c B s k"
  proof (cases "round_ok c B s 0")
    case True
    with step have "r = round_result c B s 0"
      by simp
    with True show ?thesis by (intro exI[of _ 0]) simp
  next
    case False
    with step have "loop c B ?s2 = Some r"
      by simp
    from IH[OF this] obtain k where k: "round_ok c B ?s2 k" "\<forall>j<k. \<not> round_ok c B ?s2 j"
      "r = round_result c B ?s2 k" by blast
    have "\<forall>j<Suc k. \<not> round_ok c B s j"
    proof (intro allI impI)
      fix j assume "j < Suc k"
      then show "\<not> round_ok c B s j"
        using False k(2) by (cases j) (simp_all add: round_ok_Suc)
    qed
    with k show ?thesis
      by (intro exI[of _ "Suc k"]) (simp add: round_ok_Suc round_result_Suc)
  qed
qed

lemma loop_None_iff:
  "generateRandomKeys_loop c B s = None \<longleftrightarrow> (\<forall>k. \<not> round_ok c B s k)"
proof
  assume none: "generateRandomKeys_loop c B s = None"
  show "\<forall>k. \<not> round_ok c B s k"
  proof (intro allI notI)
    fix k assume "round_ok c B s k"
    then have ex: "\<exists>k. round_ok c B s k" ..
    define k0 where "k0 = (LEAST k. round_ok c B s k)"
    have "round_ok c B s k0" unfolding k0_def using ex by (rule LeastI_ex)
    moreover have "\<forall>j<k0. \<not> round_ok c B s j"
      unfolding k0_def by (auto dest: not_less_Least)
    ultimately have "generateRandomKeys_loop c B s = Some (round_result c B s k0)"
      by (rule loop_first_ok)
    with none show False by simp
  qed
next
  assume never: "\<forall>k. \<not> round_ok c B s k"
  show "generateRandomKeys_loop c B s = None"
  proof (cases "generateRandomKeys_loop c B s")
    case None
    then show ?thesis .
  next
    case (Some r)
    from loop_Some_round[OF Some] never show ?thesis by blast
  qed
qed

section \<open>The code after the loop\<close>

lemma BigInt_or_null_JBigInt: "BigInt_or_null (default_null (JBigInt x)) = Inr (nonzero_or_null x)"
  by (simp add: BigInt_or_null_def default_null_def nonzero_or_null_def)

lemma after_loop_eq:
  "(case crypto_modInv c const_E phi of
      None \<Rightarrow> Inl ModInvFailed
    | Some d \<Rightarrow>
        (case PublicKey_constructor (JBigInt const_E) (JBigInt n) of
           Inl err \<Rightarrow> Inl err
         | Inr pub \<Rightarrow>
             (case PrivateKey_constructor (JBigInt d) (JBigInt p) (JBigInt q) (JBigInt phi) pub of
                Inl err \<Rightarrow> Inl err
              | Inr priv \<Rightarrow> Inr \<lparr>kp_publicKey = pub, kp_privateKey = priv\<rparr>))) =
   (case crypto_modInv c 65537 phi of
      None \<Rightarrow> Inl ModInvFailed
    | Some d \<Rightarrow>
        Inr \<lparr>kp_publicKey = \<lparr>pub_e = 65537, pub_n = n\<rparr>,
             kp_privateKey =
               \<lparr>priv_d = d, priv_p = nonzero_or_null p, priv_q = nonzero_or_null q,
                priv_phi = nonzero_or_null phi,
                priv_publicKey = \<lparr>pub_e = 65537, pub_n = n\<rparr>\<rparr>\<rparr>)"
  by (simp add: const_E_def PublicKey_constructor_def PrivateKey_constructor_def
      BigInt_or_null_JBigInt split: option.splits)

lemma generateRandomKeys_eq:
  "generateRandomKeys c arg s =
   (case generateRandomKeys_loop c (case arg of None \<Rightarrow> 2048 | Some b \<Rightarrow> b) s of
      None \<Rightarrow> None
    | Some ((p, q, n, phi), s') \<Rightarrow>
        Some (case crypto_modInv c 65537 phi of
           None \<Rightarrow> Inl ModInvFailed
         | Some d \<Rightarrow>
        Inr \<lparr>kp_publicKey = \<lparr>pub_e = 65537, pub_n = n\<rparr>,
             kp_privateKey =
               \<lparr>priv_d = d, priv_p = nonzero_or_null p, priv_q = nonzero_or_null q,
                priv_phi = nonzero_or_null phi,
                priv_publicKey = \<lparr>pub_e = 65537, pub_n = n\<rparr>\<rparr>\<rparr>, s'))"
  unfolding generateRandomKeys_def Let_def after_loop_eq ..

lemma generateRandomKeys_first_ok:
  assumes "round_ok c B s k" and "\<forall>j<k. \<not> round_ok c B s j"
  shows "generateRandomKeys c (Some B) s =
    Some (keys_of_primes c (round_p c B s k) (round_q c B s k), round_state c B s (Suc k))"
  by (simp add: generateRandomKeys_eq loop_first_ok[OF assms] round_result_def Let_def
      keys_of_primes_def)

lemma generateRandomKeys_Some_round:
  assumes "generateRandomKeys c (Some B) s = Some (res, s')"
  shows "\<exists>k. round_ok c B s k \<and> (\<forall>j<k. \<not> round_ok c B s j) \<and>
     s' = round_state c B s (Suc k) \<and>
     res = keys_of_primes c (round_p c B s k) (round_q c B s k)"
proof -
  from assms obtain r where r: "generateRandomKeys_loop c B s = Some r"
    by (cases "generateRandomKeys_loop c B s") (auto simp: generateRandomKeys_eq)
  from loop_Some_round[OF r] obtain k where k: "round_ok c B s k" "\<forall>j<k. \<not> round_ok c B s j"
    "r = round_result c B s k" by blast
  from generateRandomKeys_first_ok[OF k(1,2)] assms
  have "s' = round_state c B s (Suc k)"
    and "res = keys_of_primes c (round_p c B s k) (round_q c B s k)" by simp_all
  with k(1,2) show ?thesis by blast
qed

lemma generateRandomKeys_None_iff:
  "generateRandomKeys c (Some B) s = None \<longleftrightarrow> (\<forall>k. \<not> round_ok c B s k)"
  by (simp add: generateRandomKeys_eq loop_None_iff[symmetric] split: option.splits prod.splits)

lemma generateRandomKeys_default: "generateRandomKeys c None s = generateRandomKeys c (Some 2048) s"
  by (simp add: generateRandomKeys_def)

section \<open>The second variant computes what the first does\<close>

lemma loop_body_eq2:
  "(let (p, s1) = crypto_prime c (B div 2 + 1) s;
        (q, s2) = crypto_prime c (B div 2) s1;
        n = p * q;
        phi = (p - const_ONE2) * (q - const_ONE2)
    in if p = q \<or> crypto_bitLength c n \<noteq> B \<or> \<not> (crypto_gcd c phi const_E2 = const_ONE2)
       then f c B s2
       else Some ((p, q, n, phi), s2)) =
   (if round_ok c B s 0 then Some (round_result c B s 0)
    else f c B (snd (snd (sample_round c B s))))"
  by (simp add: sample_round_def gate_def const_ONE2_def const_E2_def Let_def
      round_ok_0 round_result_0 split: prod.splits)

lemma loop2_unfold:
  "generateRandomKeys_loop2 c B s =
   (if round_ok c B s 0 then Some (round_result c B s 0)
    else generateRandomKeys_loop2 c B (snd (snd (sample_round c B s))))"
  by (subst generateRandomKeys_loop2.simps) (simp only: loop_body_eq2)

lemma loop_le_loop2:
  assumes "generateRandomKeys_loop c B s = Some r"
  shows "generateRandomKeys_loop2 c B s = Some r"
proof (rule generateRandomKeys_loop.raw_induct
    [where P = "\<lambda>c B s r. generateRandomKeys_loop2 c B s = Some r", OF _ assms])
  fix loop :: "'a crypto \<Rightarrow> int \<Rightarrow> 'a \<Rightarrow> ((int \<times> int \<times> int \<times> int) \<times> 'a) option"
  fix c B s r
  assume IH: "\<And>c B s r. loop c B s = Some r \<Longrightarrow> generateRandomKeys_loop2 c B s = Some r"
  assume "(let (p, s1) = crypto_prime c (B div 2 + 1) s;
          (q, s2) = crypto_prime c (B div 2) s1; n = p * q;
          phi = (p - const_ONE) * (q - const_ONE)
      in if p = q \<or> crypto_bitLength c n \<noteq> B \<or> crypto_gcd c phi const_E \<noteq> const_ONE
         then loop c B s2 else Some ((p, q, n, phi), s2)) = Some r"
  then have step: "(if round_ok c B s 0 then Some (round_result c B s 0)
      else loop c B (snd (snd (sample_round c B s)))) = Some r"
    by (simp only: loop_body_eq [where f = loop] loop_body_round [where f = loop] not_not)
  show "generateRandomKeys_loop2 c B s = Some r"
  proof (cases "round_ok c B s 0")
    case True
    with step show ?thesis by (subst loop2_unfold) simp
  next
    case False
    with step have "loop c B (snd (snd (sample_round c B s))) = Some r" by simp
    from IH[OF this] False show ?thesis by (subst loop2_unfold) simp
  qed
qed

lemma loop2_le_loop:
  assumes "generateRandomKeys_loop2 c B s = Some r"
  shows "generateRandomKeys_loop c B s = Some r"
proof (rule generateRandomKeys_loop2.raw_induct
    [where P = "\<lambda>c B s r. generateRandomKeys_loop c B s = Some r", OF _ assms])
  fix loop :: "'a crypto \<Rightarrow> int \<Rightarrow> 'a \<Rightarrow> ((int \<times> int \<times> int \<times> int) \<times> 'a) option"
  fix c B s r
  assume IH: "\<And>c B s r. loop c B s = Some r \<Longrightarrow> generateRandomKeys_loop c B s = Some r"
  assume "(let (p, s1) = crypto_prime c (B div 2 + 1) s;
          (q, s2) = crypto_prime c (B div 2) s1; n = p * q;
          phi = (p - const_ONE2) * (q - const_ONE2)
      in if p = q \<or> crypto_bitLength c n \<noteq> B \<or> crypto_gcd c phi const_E2 \<noteq> const_ONE2
         then loop c B s2 else Some ((p, q, n, phi), s2)) = Some r"
  then have step: "(if round_ok c B s 0 then Some (round_result c B s 0)
      else loop c B (snd (snd (sample_round c B s)))) = Some r"
    by (simp only: loop_body_eq2 [where f = loop] not_not)
  show "generateRandomKeys_loop c B s = Some r"
  proof (cases "round_ok c B s 0")
    case True
    with step show ?thesis by (subst loop_unfold) simp
  next
    case False
    with step have "loop c B (snd (snd (sample_round c B s))) = Some r" by simp
    from IH[OF this] False show ?thesis by (subst loop_unfold) simp
  qed
qed

lemma loop2_eq_loop: "generateRandomKeys_loop2 c B s = generateRandomKeys_loop c B s"
proof (cases "generateRandomKeys_loop c B s")
  case (Some r)
  then show ?thesis by (simp add: loop_le_loop2)
next
  case None
  show ?thesis
  proof (cases "generateRandomKeys_loop2 c B s")
    case None
    with \<open>generateRandomKeys_loop c B s = None\<close> show ?thesis by simp
  next
    case (Some r)
    from loop2_le_loop[OF Some] None show ?thesis by simp
  qed
qed

lemma constructors2_eq:
  "PublicKey_constructor2 e n = PublicKey_constructor e n"
  "PrivateKey_constructor2 d p q phi pk = PrivateKey_constructor d p q phi pk"
  by (simp_all add: PublicKey_constructor2_def PublicKey_constructor_def
      PrivateKey_constructor2_def PrivateKey_constructor_def)

lemma generateRandomKeys2_eq: "generateRandomKeys2 c arg s = generateRandomKeys c arg s"
  unfolding generateRandomKeys2_def generateRandomKeys_def loop2_eq_loop constructors2_eq
    const_E2_def const_E_def ..

section \<open>The modelled collaborators meet the contracts\<close>

lemma spec_crypto_simps:
  "crypto_prime (spec_crypto pr) = pr"
  "crypto_bitLength (spec_crypto pr) = bitlen"
  "crypto_gcd (spec_crypto pr) = gcd"
  "crypto_modInv (spec_crypto pr) = spec_modInv"
  "crypto_modPow (spec_crypto pr) = spec_modPow"
  by (simp_all add: spec_crypto_def)

lemma spec_modPow_contract: "modPow_contract (spec_crypto pr)"
  by (simp add: modPow_contract_def spec_crypto_simps spec_modPow_def)

lemma spec_gcd_contract: "gcd_contract (spec_crypto pr)"
  by (simp add: gcd_contract_def spec_crypto_simps)

lemma spec_bitLength_contract: "bitLength_contract (spec_crypto pr)"
  unfolding bitLength_contract_def spec_crypto_simps
proof (intro allI impI)
  fix x :: int assume x: "0 < x"
  have "bitlen x \<noteq> 0" using x by (simp add: bitlen_eq_zero_iff)
  then have "0 < bitlen x" using bitlen_nonneg[of x] by linarith
  with bitlen_bounds[OF x]
  show "0 < bitlen x \<and> 2 ^ nat (bitlen x - 1) \<le> x \<and> x < 2 ^ nat (bitlen x)" by simp
qed

lemma spec_modInv_inverse:
  assumes m: "0 < m" and g: "gcd a m = 1"
  shows "a * (fst (bezw (nat (a mod m)) (nat m)) mod m) mod m = 1 mod m"
proof -
  let ?r = "a mod m"
  let ?x = "fst (bezw (nat ?r) (nat m))" and ?y = "snd (bezw (nat ?r) (nat m))"
  have r: "0 \<le> ?r" using m by simp
  have "gcd ?r m = 1" using g by (metis gcd_red_int gcd.commute)
  then have "gcd (nat ?r) (nat m) = 1"
    using r m by (metis gcd_int_def abs_of_nonneg less_imp_le nat_int nat_one_as_int of_nat_eq_1_iff int_nat_eq) 
  then have "1 = ?x * ?r + ?y * m"
    using bezw_aux[of "nat ?r" "nat m"] r m by simp
  then have "?r * ?x = 1 - ?y * m" by (simp add: algebra_simps)
  then have "?r * ?x mod m = (1 - ?y * m) mod m" by (simp only:)
  also have "\<dots> = 1 mod m" by (metis mod_diff_right_eq mod_mult_self2_is_0 diff_zero)
  finally have "?r * ?x mod m = 1 mod m" .
  then have "a * ?x mod m = 1 mod m" by (simp add: mod_mult_left_eq)
  then show ?thesis by (simp add: mod_mult_right_eq)
qed

lemma spec_modInv_contract: "modInv_contract (spec_crypto pr)"
  unfolding modInv_contract_def spec_crypto_simps
proof (intro allI impI)
  fix a m :: int assume m: "0 < m"
  show "case spec_modInv a m of None \<Rightarrow> gcd a m \<noteq> 1
        | Some x \<Rightarrow> gcd a m = 1 \<and> 0 \<le> x \<and> x < m \<and> a * x mod m = 1 mod m"
    using m by (simp add: spec_modInv_def spec_modInv_inverse)
qed

lemma is_prime_small: "is_prime 5" "is_prime 11" "is_prime 13"
  by code_simp+

lemma delayed_prime_genuine: "genuine_primes (spec_crypto (delayed_prime N))"
  by (simp add: genuine_primes_def spec_crypto_simps delayed_prime_def is_prime_small)

lemma prime128_positive: "positive_primes (spec_crypto prime128)"
  by (simp add: positive_primes_def spec_crypto_simps prime128_def)

section \<open>Fermat's little theorem and the RSA identity\<close>

lemma is_prime_nat_dvd:
  assumes "is_prime p" and "(k::nat) dvd nat p"
  shows "k = 1 \<or> k = nat p"
proof -
  from assms(1) have p: "1 < p" and nd: "\<And>d. 2 \<le> d \<Longrightarrow> d < p \<Longrightarrow> \<not> d dvd p"
    by (auto simp: is_prime_def)
  from assms(2) p have "k \<le> nat p" by (intro dvd_imp_le) auto
  moreover from assms(2) p have "k \<noteq> 0" by (auto intro!: Nat.gr0I)
  moreover have "int k dvd p" using assms(2) p
    by (metis int_dvd_int_iff nat_0_le less_imp_le zero_less_one order.strict_trans int_nat_eq le_less)
  ultimately show ?thesis using nd[of "int k"] by (cases "k = 1"; cases "k = nat p") auto
qed

lemma is_prime_coprime:
  assumes "is_prime p" and "\<not> nat p dvd (a::nat)"
  shows "coprime (nat p) a"
proof (rule coprimeI)
  fix c assume c: "c dvd nat p" "c dvd a"
  from is_prime_nat_dvd[OF assms(1) c(1)] show "is_unit c"
    using assms(2) c(2) by auto
qed

lemma is_prime_dvd_mult:
  assumes "is_prime p" and "nat p dvd (a::nat) * b"
  shows "nat p dvd a \<or> nat p dvd b"
proof (cases "nat p dvd a")
  case True
  then show ?thesis ..
next
  case False
  then have "coprime (nat p) a" by (rule is_prime_coprime[OF assms(1)])
  then have "nat p dvd a * b \<longleftrightarrow> nat p dvd b" by (rule coprime_dvd_mult_right_iff)
  with assms(2) show ?thesis by simp
qed

lemma is_prime_dvd_choose:
  assumes "is_prime p" and "0 < k" and "k < nat p"
  shows "nat p dvd (nat p choose k)"
proof -
  obtain P where P: "nat p = Suc P" using assms(3) by (cases "nat p") auto
  obtain K where K: "k = Suc K" using assms(2) by (cases k) auto
  have "Suc K * (Suc P choose Suc K) = Suc P * (P choose K)"
    by (rule Suc_times_binomial)
  then have "nat p dvd k * (nat p choose k)" unfolding P K by (metis dvd_triv_left)
  moreover have "\<not> nat p dvd k" using assms(2,3) by (auto dest: dvd_imp_le)
  ultimately show ?thesis using is_prime_dvd_mult[OF assms(1)] by blast
qed

lemma fermat_add_one:
  assumes "is_prime p"
  shows "(a + 1) ^ nat p mod nat p = (a ^ nat p + 1) mod (nat p :: nat)"
proof -
  let ?P = "nat p"
  from assms have P: "1 < ?P" by (auto simp: is_prime_def)
  have "(a + 1) ^ ?P = (\<Sum>k\<le>?P. (?P choose k) * a ^ k)"
    using binomial_ring[of a 1 ?P] by simp
  also have "{..?P} = insert 0 (insert ?P {1..<?P})" using P by auto
  also have "(\<Sum>k\<in>insert 0 (insert ?P {1..<?P}). (?P choose k) * a ^ k)
      = 1 + (a ^ ?P + (\<Sum>k\<in>{1..<?P}. (?P choose k) * a ^ k))"
    using P by simp
  finally have eq: "(a + 1) ^ ?P = (a ^ ?P + 1) + (\<Sum>k\<in>{1..<?P}. (?P choose k) * a ^ k)"
    by simp
  have "?P dvd (\<Sum>k\<in>{1..<?P}. (?P choose k) * a ^ k)"
    by (rule dvd_sum) (auto intro!: dvd_mult2 is_prime_dvd_choose[OF assms])
  then show ?thesis unfolding eq by (metis mod_add_right_eq dvd_eq_mod_eq_0 add.right_neutral mod_mod_trivial)
qed

lemma fermat_little:
  assumes "is_prime p"
  shows "(a::nat) ^ nat p mod nat p = a mod nat p"
proof (induction a)
  case 0
  from assms have "0 < nat p" by (auto simp: is_prime_def)
  then show ?case by (simp add: power_0_left)
next
  case (Suc a)
  have "Suc a ^ nat p mod nat p = (a ^ nat p + 1) mod nat p"
    using fermat_add_one[OF assms, of a] by simp
  also have "\<dots> = (a ^ nat p mod nat p + 1) mod nat p" by (simp only: mod_add_left_eq)
  also have "\<dots> = (a mod nat p + 1) mod nat p" by (simp only: Suc.IH)
  also have "\<dots> = (a + 1) mod nat p" by (simp only: mod_add_left_eq)
  finally show ?case by simp
qed

lemma fermat_power:
  assumes "is_prime p"
  shows "(a::nat) ^ (1 + j * (nat p - 1)) mod nat p = a mod nat p"
proof (induction j)
  case 0
  show ?case by simp
next
  case (Suc j)
  from assms have P: "0 < nat p" by (auto simp: is_prime_def)
  have "1 + Suc j * (nat p - 1) = (1 + j * (nat p - 1)) + (nat p - 1)" by simp
  then have "a ^ (1 + Suc j * (nat p - 1)) = a ^ (1 + j * (nat p - 1)) * a ^ (nat p - 1)"
    by (simp only: power_add)
  then have "a ^ (1 + Suc j * (nat p - 1)) mod nat p
      = (a ^ (1 + j * (nat p - 1)) mod nat p) * a ^ (nat p - 1) mod nat p"
    by (simp only: mod_mult_left_eq)
  also have "\<dots> = (a mod nat p) * a ^ (nat p - 1) mod nat p"
    by (simp only: Suc.IH)
  also have "\<dots> = a * a ^ (nat p - 1) mod nat p"
    by (simp only: mod_mult_left_eq)
  also have "a * a ^ (nat p - 1) = a ^ nat p"
    using P by (metis power_eq_if less_numeral_extra(3))
  also have "a ^ nat p mod nat p = a mod nat p" by (rule fermat_little[OF assms])
  finally show ?case .
qed

lemma is_prime_distinct_coprime:
  assumes "is_prime p" "is_prime q" "p \<noteq> q"
  shows "coprime (nat p) (nat q)"
proof (rule is_prime_coprime[OF assms(1)])
  from assms have "1 < p" "1 < q" by (auto simp: is_prime_def)
  with is_prime_nat_dvd[OF assms(2), of "nat p"] assms(3)
  show "\<not> nat p dvd nat q" by auto
qed

lemma rsa_nat:
  assumes p: "is_prime p" and q: "is_prime q" and pq: "p \<noteq> q"
    and ed: "E mod ((nat p - 1) * (nat q - 1)) = 1"
    and m: "m < nat p * nat q"
  shows "m ^ E mod (nat p * nat q) = m"
proof -
  let ?P = "nat p" and ?Q = "nat q"
  let ?phi = "(?P - 1) * (?Q - 1)"
  obtain t where E: "E = 1 + t * ?phi"
    using ed by (metis mod_mult_div_eq add.commute mult.commute)
  have "E = 1 + (t * (?Q - 1)) * (?P - 1)" using E by (simp add: mult_ac)
  then have mp: "m ^ E mod ?P = m mod ?P" using fermat_power[OF p] by simp
  have "E = 1 + (t * (?P - 1)) * (?Q - 1)" using E by (simp add: mult_ac)
  then have mq: "m ^ E mod ?Q = m mod ?Q" using fermat_power[OF q] by simp
  have le: "m \<le> m ^ E" 
  proof (cases "m = 0")
    case True then show ?thesis using E by simp
  next
    case False
    then have "m ^ 1 \<le> m ^ E" using E by (intro power_increasing) auto
    then show ?thesis by simp
  qed
  have "?P dvd m ^ E - m" using mp le by (metis mod_eq_dvd_iff_nat)
  moreover have "?Q dvd m ^ E - m" using mq le by (metis mod_eq_dvd_iff_nat)
  ultimately have "?P * ?Q dvd m ^ E - m"
    using is_prime_distinct_coprime[OF p q pq] by (rule_tac divides_mult) 
  then have "m ^ E mod (?P * ?Q) = m mod (?P * ?Q)" using le by (metis mod_eq_dvd_iff_nat)
  then show ?thesis using m by simp
qed


lemma is_prime_gt_1: "is_prime p \<Longrightarrow> 1 < p"
  by (simp add: is_prime_def)

lemma rsa_int:
  assumes p: "is_prime p" and q: "is_prime q" and pq: "p \<noteq> q"
    and e: "0 \<le> e" and d: "0 \<le> d"
    and ed: "e * d mod ((p - 1) * (q - 1)) = 1 mod ((p - 1) * (q - 1))"
    and m: "0 \<le> m" "m < p * q"
  shows "(m ^ nat e mod (p * q)) ^ nat d mod (p * q) = m"
proof -
  let ?P = "nat p" and ?Q = "nat q"
  have p1: "1 < p" and q1: "1 < q" using p q by (simp_all add: is_prime_gt_1)
  have phi: "1 < (p - 1) * (q - 1)"
  proof (cases "2 < p")
    case True
    have "2 * 1 \<le> (p - 1) * (q - 1)" using True q1 by (intro mult_mono) auto
    then show ?thesis by simp
  next
    case False
    with p1 q1 pq have "2 < q" by linarith
    have "1 * 2 \<le> (p - 1) * (q - 1)" using \<open>2 < q\<close> p1 by (intro mult_mono) auto
    then show ?thesis by simp
  qed
  have phi_nat: "int ((?P - 1) * (?Q - 1)) = (p - 1) * (q - 1)"
    using p1 q1 by (simp add: of_nat_diff)
  have ed0: "0 \<le> e * d" using e d by simp
  have "int (nat (e * d) mod ((?P - 1) * (?Q - 1))) = int (nat (e * d)) mod int ((?P - 1) * (?Q - 1))"
    by (rule zmod_int)
  also have "\<dots> = e * d mod ((p - 1) * (q - 1))"
    unfolding phi_nat using ed0 by simp
  also have "\<dots> = 1" using ed phi by simp
  finally have ed_nat: "nat (e * d) mod ((?P - 1) * (?Q - 1)) = 1" by simp
  have m_nat: "nat m < ?P * ?Q"
    using m p1 q1 by (simp add: nat_less_iff nat_mult_distrib[symmetric])
  have core: "nat m ^ nat (e * d) mod (?P * ?Q) = nat m"
    by (rule rsa_nat[OF p q pq ed_nat m_nat])
  have "(m ^ nat e mod (p * q)) ^ nat d mod (p * q) = (m ^ nat e) ^ nat d mod (p * q)"
    by (simp add: power_mod)
  also have "\<dots> = m ^ nat (e * d) mod (p * q)"
    using e d by (simp add: power_mult nat_mult_distrib)
  also have "\<dots> = int (nat m ^ nat (e * d) mod (?P * ?Q))"
    using m p1 q1 by (simp add: zmod_int)
  also have "\<dots> = m" using core m by simp
  finally show ?thesis .
qed

section \<open>The keyed operations\<close>

lemma keyed_operation_results:
  "fst (PublicKey_encrypt c x pub) = crypto_modPow c x (pub_e pub) (pub_n pub)"
  "fst (PublicKey_verify c x pub) = crypto_modPow c x (pub_e pub) (pub_n pub)"
  "fst (PrivateKey_sign c x priv) = crypto_modPow c x (priv_d priv) (PrivateKey_n priv)"
  "fst (PrivateKey_decrypt c x priv) = crypto_modPow c x (priv_d priv) (PrivateKey_n priv)"
  by (simp_all add: PublicKey_encrypt_def PublicKey_verify_def PrivateKey_sign_def
      PrivateKey_decrypt_def PrivateKey_n_def)

lemma keyed_operation_receivers:
  "snd (PublicKey_encrypt c x pub) = pub"
  "snd (PublicKey_verify c x pub) = pub"
  "snd (PrivateKey_sign c x priv) = priv"
  "snd (PrivateKey_decrypt c x priv) = priv"
  by (simp_all add: PublicKey_encrypt_def PublicKey_verify_def PrivateKey_sign_def
      PrivateKey_decrypt_def)

lemma modPow_contractD:
  "modPow_contract c \<Longrightarrow> 0 \<le> e \<Longrightarrow> 0 < n \<Longrightarrow> crypto_modPow c b e n = b ^ nat e mod n"
  by (simp add: modPow_contract_def)

text \<open>
  C4. Each of the four keyed operations is one call of \<open>modPow\<close> on the key's material, so
  \<open>encrypt\<close> and \<open>verify\<close> coincide, and so do \<open>sign\<close> and \<open>decrypt\<close>. Where \<open>modPow\<close> meets
  its contract and the exponent is not negative and the modulus is positive, \<open>encrypt\<close> and
  \<open>verify\<close> return \<open>x^e mod n\<close>, and \<open>sign\<close> and \<open>decrypt\<close> return \<open>x^d mod n\<close>.
\<close>

theorem keyed_operations_are_modPow:
  "fst (PublicKey_encrypt c x pub) = crypto_modPow c x (pub_e pub) (pub_n pub) \<and>
   fst (PublicKey_verify c x pub) = fst (PublicKey_encrypt c x pub) \<and>
   fst (PrivateKey_sign c x priv) = crypto_modPow c x (priv_d priv) (PrivateKey_n priv) \<and>
   fst (PrivateKey_decrypt c x priv) = fst (PrivateKey_sign c x priv) \<and>
   (modPow_contract c \<and> 0 \<le> pub_e pub \<and> 0 < pub_n pub \<longrightarrow>
      fst (PublicKey_encrypt c x pub) = x ^ nat (pub_e pub) mod pub_n pub \<and>
      fst (PublicKey_verify c x pub) = x ^ nat (pub_e pub) mod pub_n pub) \<and>
   (modPow_contract c \<and> 0 \<le> priv_d priv \<and> 0 < PrivateKey_n priv \<longrightarrow>
      fst (PrivateKey_sign c x priv) = x ^ nat (priv_d priv) mod PrivateKey_n priv \<and>
      fst (PrivateKey_decrypt c x priv) = x ^ nat (priv_d priv) mod PrivateKey_n priv)"
  by (simp add: keyed_operation_results modPow_contractD)

theorem keyed_operations_are_modPow_witness:
  "fst (PublicKey_encrypt (spec_crypto stuck_prime) 42 \<lparr>pub_e = 3, pub_n = 55\<rparr>) = 3 \<and>
   fst (PublicKey_verify (spec_crypto stuck_prime) 42 \<lparr>pub_e = 3, pub_n = 55\<rparr>) = 3 \<and>
   fst (PrivateKey_sign (spec_crypto stuck_prime) 42
     \<lparr>priv_d = 27, priv_p = Some 11, priv_q = Some 5, priv_phi = Some 40,
      priv_publicKey = \<lparr>pub_e = 3, pub_n = 55\<rparr>\<rparr>) = 48 \<and>
   fst (PrivateKey_decrypt (spec_crypto stuck_prime) 42
     \<lparr>priv_d = 27, priv_p = Some 11, priv_q = Some 5, priv_phi = Some 40,
      priv_publicKey = \<lparr>pub_e = 3, pub_n = 55\<rparr>\<rparr>) = 48"
  using keyed_operations_are_modPow [of "spec_crypto stuck_prime" 42 "\<lparr>pub_e = 3, pub_n = 55\<rparr>"
      "\<lparr>priv_d = 27, priv_p = Some 11, priv_q = Some 5, priv_phi = Some 40,
        priv_publicKey = \<lparr>pub_e = 3, pub_n = 55\<rparr>\<rparr>"]
    spec_modPow_contract [of stuck_prime]
  by (simp add: PrivateKey_n_def)

text \<open>
  C7. An operand outside \<open>0 \<le> m < n\<close> is reduced modulo \<open>n\<close>: where \<open>modPow\<close> meets its
  contract, each operation returns for \<open>m \<ge> 0\<close> what it returns for \<open>m mod n\<close>, a residue
  of \<open>n\<close>. No operation has an error result.
\<close>

theorem operands_wrap_modulo_n:
  assumes "modPow_contract c" and "0 \<le> m"
  shows "(0 \<le> pub_e pub \<and> 0 < pub_n pub \<longrightarrow>
      fst (PublicKey_encrypt c m pub) = fst (PublicKey_encrypt c (m mod pub_n pub) pub) \<and>
      fst (PublicKey_verify c m pub) = fst (PublicKey_verify c (m mod pub_n pub) pub) \<and>
      0 \<le> fst (PublicKey_encrypt c m pub) \<and> fst (PublicKey_encrypt c m pub) < pub_n pub) \<and>
    (0 \<le> priv_d priv \<and> 0 < PrivateKey_n priv \<longrightarrow>
      fst (PrivateKey_sign c m priv) = fst (PrivateKey_sign c (m mod PrivateKey_n priv) priv) \<and>
      fst (PrivateKey_decrypt c m priv) =
        fst (PrivateKey_decrypt c (m mod PrivateKey_n priv) priv) \<and>
      0 \<le> fst (PrivateKey_sign c m priv) \<and> fst (PrivateKey_sign c m priv) < PrivateKey_n priv)"
  using assms(1) by (simp add: keyed_operation_results modPow_contractD power_mod)

theorem operands_wrap_modulo_n_witness:
  "fst (PublicKey_encrypt (spec_crypto stuck_prime) 97 \<lparr>pub_e = 3, pub_n = 55\<rparr>) =
   fst (PublicKey_encrypt (spec_crypto stuck_prime) 42 \<lparr>pub_e = 3, pub_n = 55\<rparr>) \<and>
   fst (PrivateKey_sign (spec_crypto stuck_prime) 97
     \<lparr>priv_d = 27, priv_p = None, priv_q = None, priv_phi = None,
      priv_publicKey = \<lparr>pub_e = 3, pub_n = 55\<rparr>\<rparr>) =
   fst (PrivateKey_sign (spec_crypto stuck_prime) 42
     \<lparr>priv_d = 27, priv_p = None, priv_q = None, priv_phi = None,
      priv_publicKey = \<lparr>pub_e = 3, pub_n = 55\<rparr>\<rparr>)"
  using operands_wrap_modulo_n [OF spec_modPow_contract [of stuck_prime], of 97
      "\<lparr>pub_e = 3, pub_n = 55\<rparr>"
      "\<lparr>priv_d = 27, priv_p = None, priv_q = None, priv_phi = None,
        priv_publicKey = \<lparr>pub_e = 3, pub_n = 55\<rparr>\<rparr>"]
  by (simp add: PrivateKey_n_def)

section \<open>The purity of the keyed operations\<close>

lemma pure_modPowD:
  assumes "pure_modPow modPow"
  shows "modPow b e n s = (fst (modPow b e n s'), s)"
  using assms unfolding pure_modPow_def by (metis prod.collapse)

lemma keyed_operations_fx_pure:
  assumes "pure_modPow modPow"
  shows "PublicKey_encrypt_fx modPow m pub s = (fst (modPow m (pub_e pub) (pub_n pub) s'), pub, s)"
    and "PublicKey_verify_fx modPow m pub s = (fst (modPow m (pub_e pub) (pub_n pub) s'), pub, s)"
    and "PrivateKey_sign_fx modPow m priv s =
      (fst (modPow m (priv_d priv) (pub_n (priv_publicKey priv)) s'), priv, s)"
    and "PrivateKey_decrypt_fx modPow m priv s =
      (fst (modPow m (priv_d priv) (pub_n (priv_publicKey priv)) s'), priv, s)"
  unfolding PublicKey_encrypt_fx_def PublicKey_verify_fx_def PrivateKey_sign_fx_def
    PrivateKey_decrypt_fx_def
  by (simp_all add: pure_modPowD[OF assms, of _ _ _ s s'])

text \<open>
  The embedding with effects agrees with the one used elsewhere: over a collaborator that
  keeps no state, each operation returns the result and the receiver of its counterpart
  and leaves the state alone.
\<close>

lemma keyed_operations_fx_stateless:
  "PublicKey_encrypt_fx (\<lambda>b e n s. (crypto_modPow c b e n, s)) m pub s =
     (fst (PublicKey_encrypt c m pub), snd (PublicKey_encrypt c m pub), s)"
  "PublicKey_verify_fx (\<lambda>b e n s. (crypto_modPow c b e n, s)) m pub s =
     (fst (PublicKey_verify c m pub), snd (PublicKey_verify c m pub), s)"
  "PrivateKey_sign_fx (\<lambda>b e n s. (crypto_modPow c b e n, s)) m priv s =
     (fst (PrivateKey_sign c m priv), snd (PrivateKey_sign c m priv), s)"
  "PrivateKey_decrypt_fx (\<lambda>b e n s. (crypto_modPow c b e n, s)) m priv s =
     (fst (PrivateKey_decrypt c m priv), snd (PrivateKey_decrypt c m priv), s)"
  by (simp_all add: PublicKey_encrypt_fx_def PublicKey_verify_fx_def PrivateKey_sign_fx_def
      PrivateKey_decrypt_fx_def PublicKey_encrypt_def PublicKey_verify_def PrivateKey_sign_def
      PrivateKey_decrypt_def)

text \<open>
  The hypothesis on \<open>modPow\<close> cannot be dropped: over the counting \<open>modPow\<close> a second call
  of \<open>encrypt\<close> with the same input on the same key returns another result, and the state
  has changed.
\<close>

lemma counting_modPow_not_pure:
  "\<not> pure_modPow counting_modPow \<and>
   PublicKey_encrypt_fx counting_modPow 42 \<lparr>pub_e = 3, pub_n = 55\<rparr> 0 =
     (3, \<lparr>pub_e = 3, pub_n = 55\<rparr>, 1) \<and>
   PublicKey_encrypt_fx counting_modPow 42 \<lparr>pub_e = 3, pub_n = 55\<rparr> 1 =
     (4, \<lparr>pub_e = 3, pub_n = 55\<rparr>, 2)"
proof -
  have "\<not> pure_modPow counting_modPow"
  proof
    assume "pure_modPow counting_modPow"
    then have "snd (counting_modPow 0 0 1 0) = 0" unfolding pure_modPow_def by blast
    then show False by (simp add: counting_modPow_def)
  qed
  then show ?thesis by (simp add: PublicKey_encrypt_fx_def counting_modPow_def)
qed

text \<open>
  C8. The four keyed operations are deterministic, pure functions of the input and the key
  material. Where \<open>modPow\<close> is pure, a call of \<open>encrypt\<close>, \<open>verify\<close>, \<open>sign\<close> or \<open>decrypt\<close>
  leaves the key, with every field and property, and the state outside the key as it found
  them; its result is the same in every state and for every key with the same \<open>e\<close> and \<open>n\<close>
  (the same \<open>d\<close> and \<open>publicKey.n\<close> for a private key), whatever else the keys hold; and a
  second call with the same input, on the key and in the state the first call left, returns
  the result of the first.
\<close>

theorem keyed_operations_pure:
  assumes "pure_modPow modPow"
  shows
    "fst (snd (PublicKey_encrypt_fx modPow m pub s)) = pub \<and>
     snd (snd (PublicKey_encrypt_fx modPow m pub s)) = s \<and>
     (pub_e pub' = pub_e pub \<and> pub_n pub' = pub_n pub \<longrightarrow>
        fst (PublicKey_encrypt_fx modPow m pub' s') = fst (PublicKey_encrypt_fx modPow m pub s)) \<and>
     (case PublicKey_encrypt_fx modPow m pub s of
        (r, pub1, s1) \<Rightarrow> PublicKey_encrypt_fx modPow m pub1 s1 = (r, pub, s)) \<and>
     fst (snd (PublicKey_verify_fx modPow m pub s)) = pub \<and>
     snd (snd (PublicKey_verify_fx modPow m pub s)) = s \<and>
     (pub_e pub' = pub_e pub \<and> pub_n pub' = pub_n pub \<longrightarrow>
        fst (PublicKey_verify_fx modPow m pub' s') = fst (PublicKey_verify_fx modPow m pub s)) \<and>
     (case PublicKey_verify_fx modPow m pub s of
        (r, pub1, s1) \<Rightarrow> PublicKey_verify_fx modPow m pub1 s1 = (r, pub, s)) \<and>
     fst (snd (PrivateKey_sign_fx modPow m priv s)) = priv \<and>
     snd (snd (PrivateKey_sign_fx modPow m priv s)) = s \<and>
     (priv_d priv' = priv_d priv \<and>
      pub_n (priv_publicKey priv') = pub_n (priv_publicKey priv) \<longrightarrow>
        fst (PrivateKey_sign_fx modPow m priv' s') = fst (PrivateKey_sign_fx modPow m priv s)) \<and>
     (case PrivateKey_sign_fx modPow m priv s of
        (r, priv1, s1) \<Rightarrow> PrivateKey_sign_fx modPow m priv1 s1 = (r, priv, s)) \<and>
     fst (snd (PrivateKey_decrypt_fx modPow m priv s)) = priv \<and>
     snd (snd (PrivateKey_decrypt_fx modPow m priv s)) = s \<and>
     (priv_d priv' = priv_d priv \<and>
      pub_n (priv_publicKey priv') = pub_n (priv_publicKey priv) \<longrightarrow>
        fst (PrivateKey_decrypt_fx modPow m priv' s') =
          fst (PrivateKey_decrypt_fx modPow m priv s)) \<and>
     (case PrivateKey_decrypt_fx modPow m priv s of
        (r, priv1, s1) \<Rightarrow> PrivateKey_decrypt_fx modPow m priv1 s1 = (r, priv, s))"
proof -
  note fx = keyed_operations_fx_pure[OF assms, where s' = s]
  show ?thesis by (simp add: fx)
qed

lemma stateless_spec_modPow_pure: "pure_modPow (\<lambda>b e n s. (spec_modPow b e n, s))"
  by (simp add: pure_modPow_def)

theorem keyed_operations_pure_witness:
  "PublicKey_encrypt_fx (\<lambda>b e n s. (spec_modPow b e n, s)) 42
      \<lparr>pub_e = 3, pub_n = 55\<rparr> (7::nat) = (3, \<lparr>pub_e = 3, pub_n = 55\<rparr>, 7) \<and>
   fst (PublicKey_encrypt_fx (\<lambda>b e n s. (spec_modPow b e n, s)) 42
      \<lparr>pub_e = 3, pub_n = 55\<rparr> (8::nat)) = 3 \<and>
   fst (PrivateKey_sign_fx (\<lambda>b e n s. (spec_modPow b e n, s)) 42
      \<lparr>priv_d = 27, priv_p = None, priv_q = None, priv_phi = None,
       priv_publicKey = \<lparr>pub_e = 7, pub_n = 55\<rparr>\<rparr> (8::nat)) =
   fst (PrivateKey_sign_fx (\<lambda>b e n s. (spec_modPow b e n, s)) 42
      \<lparr>priv_d = 27, priv_p = Some 11, priv_q = Some 5, priv_phi = Some 40,
       priv_publicKey = \<lparr>pub_e = 3, pub_n = 55\<rparr>\<rparr> (7::nat))"
proof -
  let ?modPow = "\<lambda>b e n (s::nat). (spec_modPow b e n, s)"
  let ?pub = "\<lparr>pub_e = 3, pub_n = 55\<rparr>"
  let ?priv = "\<lparr>priv_d = 27, priv_p = Some 11, priv_q = Some 5, priv_phi = Some 40,
       priv_publicKey = \<lparr>pub_e = 3, pub_n = 55\<rparr>\<rparr>"
  let ?priv' = "\<lparr>priv_d = 27, priv_p = None, priv_q = None, priv_phi = None,
       priv_publicKey = \<lparr>pub_e = 7, pub_n = 55\<rparr>\<rparr>"
  have first: "fst (PublicKey_encrypt_fx ?modPow 42 ?pub 7) = 3"
    by (simp add: PublicKey_encrypt_fx_def spec_modPow_def)
  from keyed_operations_pure [OF stateless_spec_modPow_pure,
      of 42 ?pub "7::nat" ?pub "8::nat" ?priv ?priv'] first
  show ?thesis by (simp add: prod_eq_iff)
qed

section \<open>The constructor of PrivateKey\<close>

lemma truthy_iff:
  "truthy v \<longleftrightarrow>
   v \<notin> {JNull, JUndefined, JBool False, JNumber 0, JNaN, JBigInt 0, JString []}"
  by (cases v) auto

lemma default_null_falsy: "\<not> truthy v \<Longrightarrow> BigInt_or_null (default_null v) = Inr None"
  by (simp add: BigInt_or_null_def default_null_def)

lemma default_null_truthy:
  "truthy v \<Longrightarrow>
   BigInt_or_null (default_null v) = (case BigInt v of Inl err \<Rightarrow> Inl err | Inr x \<Rightarrow> Inr (Some x))"
  by (cases "v = JUndefined") (simp_all add: BigInt_or_null_def default_null_def)

lemma BigInt_or_null_default:
  "BigInt_or_null (default_null v) = Inr r \<longleftrightarrow>
   (if truthy v then \<exists>x. BigInt v = Inr x \<and> r = Some x else r = None)"
  by (cases "truthy v") (auto simp: default_null_falsy default_null_truthy split: sum.splits)

lemma BigInt_or_null_succeeds:
  "(\<exists>r. BigInt_or_null (default_null v) = Inr r) \<longleftrightarrow> (truthy v \<longrightarrow> (\<exists>x. BigInt v = Inr x))"
  by (auto simp: BigInt_or_null_default)

lemma PrivateKey_constructor_Inr:
  "PrivateKey_constructor d p q phi pk = Inr k \<longleftrightarrow>
   (\<exists>d' p' q' phi'. BigInt d = Inr d' \<and> BigInt_or_null (default_null p) = Inr p' \<and>
      BigInt_or_null (default_null q) = Inr q' \<and> BigInt_or_null (default_null phi) = Inr phi' \<and>
      k = \<lparr>priv_d = d', priv_p = p', priv_q = q', priv_phi = phi', priv_publicKey = pk\<rparr>)"
  by (auto simp: PrivateKey_constructor_def split: sum.splits)

lemma PrivateKey_constructor_succeeds:
  "(\<exists>k. PrivateKey_constructor d p q phi pk = Inr k) \<longleftrightarrow>
   (\<exists>x. BigInt d = Inr x) \<and>
   (truthy p \<longrightarrow> (\<exists>x. BigInt p = Inr x)) \<and>
   (truthy q \<longrightarrow> (\<exists>x. BigInt q = Inr x)) \<and>
   (truthy phi \<longrightarrow> (\<exists>x. BigInt phi = Inr x))"
  unfolding PrivateKey_constructor_Inr BigInt_or_null_succeeds[symmetric] by blast

lemma PrivateKey_constructor_falsy:
  "\<not> truthy p \<Longrightarrow> PrivateKey_constructor d p q phi pk = PrivateKey_constructor d JNull q phi pk"
  "\<not> truthy q \<Longrightarrow> PrivateKey_constructor d p q phi pk = PrivateKey_constructor d p JNull phi pk"
  "\<not> truthy phi \<Longrightarrow> PrivateKey_constructor d p q phi pk = PrivateKey_constructor d p q JNull pk"
  by (simp_all add: PrivateKey_constructor_def default_null_falsy cong: sum.case_cong)

text \<open>
  C10. The constructor of PrivateKey tests \<open>p\<close>, \<open>q\<close> and \<open>phi\<close> for truthiness, not for
  presence. It makes a key exactly when \<open>BigInt(d)\<close> and \<open>BigInt\<close> of every truthy one of
  \<open>p\<close>, \<open>q\<close>, \<open>phi\<close> return; the key then stores \<open>BigInt(d)\<close>, \<open>null\<close> for a falsy argument
  and \<open>BigInt\<close> of a truthy one. The falsy values are \<open>null\<close>, \<open>undefined\<close>, \<open>false\<close>, \<open>0\<close>,
  \<open>NaN\<close>, \<open>BigInt(0)\<close> and the empty string, and a falsy argument, a zero included, does
  what \<open>null\<close> does: it is stored as absent without an error. \<open>d\<close> is coerced
  unconditionally: what \<open>BigInt(d)\<close> throws the constructor throws, a TypeError for \<open>null\<close>
  and \<open>undefined\<close>, and no key is made.
\<close>

theorem PrivateKey_constructor_truthiness:
  "(BigInt d = Inl err \<longrightarrow> PrivateKey_constructor d p q phi pk = Inl err) \<and>
   (d = JNull \<or> d = JUndefined \<longrightarrow> PrivateKey_constructor d p q phi pk = Inl TypeError) \<and>
   ((\<exists>k'. PrivateKey_constructor d p q phi pk = Inr k') \<longleftrightarrow>
      (\<exists>x. BigInt d = Inr x) \<and>
      (truthy p \<longrightarrow> (\<exists>x. BigInt p = Inr x)) \<and>
      (truthy q \<longrightarrow> (\<exists>x. BigInt q = Inr x)) \<and>
      (truthy phi \<longrightarrow> (\<exists>x. BigInt phi = Inr x))) \<and>
   (PrivateKey_constructor d p q phi pk = Inr k \<longrightarrow>
      BigInt d = Inr (priv_d k) \<and> priv_publicKey k = pk \<and>
      (if truthy p then \<exists>x. BigInt p = Inr x \<and> priv_p k = Some x else priv_p k = None) \<and>
      (if truthy q then \<exists>x. BigInt q = Inr x \<and> priv_q k = Some x else priv_q k = None) \<and>
      (if truthy phi then \<exists>x. BigInt phi = Inr x \<and> priv_phi k = Some x
       else priv_phi k = None)) \<and>
   (\<not> truthy p \<longrightarrow>
      PrivateKey_constructor d p q phi pk = PrivateKey_constructor d JNull q phi pk) \<and>
   (\<not> truthy q \<longrightarrow>
      PrivateKey_constructor d p q phi pk = PrivateKey_constructor d p JNull phi pk) \<and>
   (\<not> truthy phi \<longrightarrow>
      PrivateKey_constructor d p q phi pk = PrivateKey_constructor d p q JNull pk) \<and>
   (truthy p \<longleftrightarrow>
      p \<notin> {JNull, JUndefined, JBool False, JNumber 0, JNaN, JBigInt 0, JString []})"
proof (intro conjI impI)
  assume "BigInt d = Inl err"
  then show "PrivateKey_constructor d p q phi pk = Inl err"
    by (simp add: PrivateKey_constructor_def)
next
  assume "d = JNull \<or> d = JUndefined"
  then show "PrivateKey_constructor d p q phi pk = Inl TypeError"
    by (auto simp: PrivateKey_constructor_def)
next
  show "(\<exists>k'. PrivateKey_constructor d p q phi pk = Inr k') \<longleftrightarrow>
      (\<exists>x. BigInt d = Inr x) \<and>
      (truthy p \<longrightarrow> (\<exists>x. BigInt p = Inr x)) \<and>
      (truthy q \<longrightarrow> (\<exists>x. BigInt q = Inr x)) \<and>
      (truthy phi \<longrightarrow> (\<exists>x. BigInt phi = Inr x))"
    by (rule PrivateKey_constructor_succeeds)
next
  assume k: "PrivateKey_constructor d p q phi pk = Inr k"
  then show "BigInt d = Inr (priv_d k)" and "priv_publicKey k = pk"
    by (auto simp: PrivateKey_constructor_Inr)
  from k show "if truthy p then \<exists>x. BigInt p = Inr x \<and> priv_p k = Some x else priv_p k = None"
    by (auto simp: PrivateKey_constructor_Inr BigInt_or_null_default)
  from k show "if truthy q then \<exists>x. BigInt q = Inr x \<and> priv_q k = Some x else priv_q k = None"
    by (auto simp: PrivateKey_constructor_Inr BigInt_or_null_default)
  from k show "if truthy phi then \<exists>x. BigInt phi = Inr x \<and> priv_phi k = Some x
    else priv_phi k = None"
    by (auto simp: PrivateKey_constructor_Inr BigInt_or_null_default)
next
  assume "\<not> truthy p"
  then show "PrivateKey_constructor d p q phi pk = PrivateKey_constructor d JNull q phi pk"
    by (rule PrivateKey_constructor_falsy)
next
  assume "\<not> truthy q"
  then show "PrivateKey_constructor d p q phi pk = PrivateKey_constructor d p JNull phi pk"
    by (rule PrivateKey_constructor_falsy)
next
  assume "\<not> truthy phi"
  then show "PrivateKey_constructor d p q phi pk = PrivateKey_constructor d p q JNull pk"
    by (rule PrivateKey_constructor_falsy)
next
  show "truthy p \<longleftrightarrow>
      p \<notin> {JNull, JUndefined, JBool False, JNumber 0, JNaN, JBigInt 0, JString []}"
    by (rule truthy_iff)
qed

lemma StringToBigInt_examples:
  "StringToBigInt ''abc'' = None"
  "StringToBigInt '' 0x1F '' = Some 31"
  "StringToBigInt ''-12'' = Some (- 12)"
  "StringToBigInt ''0b102'' = None"
  "StringToBigInt [] = Some 0"
  by code_simp+

theorem PrivateKey_constructor_truthiness_witness:
  "PrivateKey_constructor (JBigInt 27) (JBigInt 0) (JNumber 0) (JString '' 0x1F '')
       \<lparr>pub_e = 3, pub_n = 55\<rparr> =
     Inr \<lparr>priv_d = 27, priv_p = None, priv_q = None, priv_phi = Some 31,
          priv_publicKey = \<lparr>pub_e = 3, pub_n = 55\<rparr>\<rparr> \<and>
   PrivateKey_constructor JNull (JBigInt 11) (JBigInt 5) (JBigInt 40) \<lparr>pub_e = 3, pub_n = 55\<rparr> =
     Inl TypeError \<and>
   \<not> (\<exists>k. PrivateKey_constructor (JBigInt 27) (JNumber (3 / 2)) JNull JNull
             \<lparr>pub_e = 3, pub_n = 55\<rparr> = Inr k) \<and>
   \<not> (\<exists>k. PrivateKey_constructor (JBigInt 27) JNull (JString ''abc'') JNull
             \<lparr>pub_e = 3, pub_n = 55\<rparr> = Inr k)"
proof -
  let ?pk = "\<lparr>pub_e = 3, pub_n = 55\<rparr>"
  let ?made = "PrivateKey_constructor (JBigInt 27) (JBigInt 0) (JNumber 0) (JString '' 0x1F '') ?pk"
  note made_iff = PrivateKey_constructor_truthiness
    [of "JBigInt 27" _ "JBigInt 0" "JNumber 0" "JString '' 0x1F ''" ?pk,
      THEN conjunct2, THEN conjunct2, THEN conjunct1]
  have "\<exists>k. ?made = Inr k"
    by (subst made_iff) (simp add: StringToBigInt_examples)
  then obtain k where k: "?made = Inr k" ..
  note fields = PrivateKey_constructor_truthiness
    [of "JBigInt 27" _ "JBigInt 0" "JNumber 0" "JString '' 0x1F ''" ?pk k,
      THEN conjunct2, THEN conjunct2, THEN conjunct2, THEN conjunct1, rule_format, OF k]
  from fields have "priv_d k = 27" "priv_p k = None" "priv_q k = None" "priv_phi k = Some 31"
    "priv_publicKey k = ?pk"
    by (simp_all add: StringToBigInt_examples)
  then have "k = \<lparr>priv_d = 27, priv_p = None, priv_q = None, priv_phi = Some 31,
      priv_publicKey = ?pk\<rparr>"
    by (cases k) simp
  with k have made: "?made = Inr \<lparr>priv_d = 27, priv_p = None, priv_q = None, priv_phi = Some 31,
      priv_publicKey = ?pk\<rparr>" by simp
  have thrown: "PrivateKey_constructor JNull (JBigInt 11) (JBigInt 5) (JBigInt 40) ?pk =
      Inl TypeError"
    by (rule PrivateKey_constructor_truthiness
        [of JNull _ "JBigInt 11" "JBigInt 5" "JBigInt 40" ?pk,
          THEN conjunct2, THEN conjunct1, rule_format]) simp
  have fraction: "\<not> (\<exists>k. PrivateKey_constructor (JBigInt 27) (JNumber (3 / 2)) JNull JNull ?pk =
      Inr k)"
    by (subst PrivateKey_constructor_truthiness
        [of "JBigInt 27" _ "JNumber (3 / 2)" JNull JNull ?pk,
          THEN conjunct2, THEN conjunct2, THEN conjunct1]) simp
  have word: "\<not> (\<exists>k. PrivateKey_constructor (JBigInt 27) JNull (JString ''abc'') JNull ?pk =
      Inr k)"
    by (subst PrivateKey_constructor_truthiness
        [of "JBigInt 27" _ JNull "JString ''abc''" JNull ?pk,
          THEN conjunct2, THEN conjunct2, THEN conjunct1])
       (simp add: StringToBigInt_examples)
  from made thrown fraction word show ?thesis by (simp only: simp_thms)
qed

section \<open>The generated keypair\<close>

lemma keys_of_primes_Inr:
  "keys_of_primes c p q = Inr kp \<Longrightarrow>
   kp_publicKey kp = \<lparr>pub_e = 65537, pub_n = p * q\<rparr> \<and>
   priv_publicKey (kp_privateKey kp) = \<lparr>pub_e = 65537, pub_n = p * q\<rparr> \<and>
   crypto_modInv c 65537 ((p - 1) * (q - 1)) = Some (priv_d (kp_privateKey kp)) \<and>
   priv_p (kp_privateKey kp) = nonzero_or_null p \<and>
   priv_q (kp_privateKey kp) = nonzero_or_null q \<and>
   priv_phi (kp_privateKey kp) = nonzero_or_null ((p - 1) * (q - 1))"
  by (auto simp: keys_of_primes_def split: option.splits)

lemma round_ok_gate:
  "round_ok c B s k \<Longrightarrow>
   round_p c B s k \<noteq> round_q c B s k \<and>
   crypto_bitLength c (round_p c B s k * round_q c B s k) = B \<and>
   crypto_gcd c ((round_p c B s k - 1) * (round_q c B s k - 1)) 65537 = 1"
  by (simp add: round_ok_def gate_def)

text \<open>
  C2. The modulus of a keypair that \<open>generateRandomKeys\<close> returns has exactly the requested
  bit length (\<open>2048\<close> when the call gives none): \<open>publicKey.bitLength\<close> and
  \<open>privateKey.bitLength\<close> both equal it.
\<close>

theorem generated_modulus_bitLength:
  assumes "generateRandomKeys c arg s = Some (Inr kp, s')"
  shows "PublicKey_bitLength c (kp_publicKey kp) = (case arg of None \<Rightarrow> 2048 | Some B \<Rightarrow> B) \<and>
    PrivateKey_bitLength c (kp_privateKey kp) = (case arg of None \<Rightarrow> 2048 | Some B \<Rightarrow> B)"
proof -
  define B where "B = (case arg of None \<Rightarrow> 2048 | Some B \<Rightarrow> B)"
  have "generateRandomKeys c arg s = generateRandomKeys c (Some B) s"
    by (cases arg) (simp_all add: B_def generateRandomKeys_default)
  with assms have "generateRandomKeys c (Some B) s = Some (Inr kp, s')" by simp
  from generateRandomKeys_Some_round[OF this] obtain k where
    ok: "round_ok c B s k" and
    kp: "keys_of_primes c (round_p c B s k) (round_q c B s k) = Inr kp" by auto
  from keys_of_primes_Inr[OF kp] round_ok_gate[OF ok]
  show ?thesis
    unfolding B_def[symmetric] by (simp add: PublicKey_bitLength_def PrivateKey_bitLength_def)
qed

lemma demo_run:
  "generateRandomKeys (spec_crypto (delayed_prime 1)) (Some 6) 0 =
   Some (Inr \<lparr>kp_publicKey = \<lparr>pub_e = 65537, pub_n = 55\<rparr>,
              kp_privateKey =
                \<lparr>priv_d = 33, priv_p = Some 11, priv_q = Some 5, priv_phi = Some 40,
                 priv_publicKey = \<lparr>pub_e = 65537, pub_n = 55\<rparr>\<rparr>\<rparr>, 4)"
  by code_simp

theorem generated_modulus_bitLength_witness:
  "PublicKey_bitLength (spec_crypto (delayed_prime 1)) \<lparr>pub_e = 65537, pub_n = 55\<rparr> = 6 \<and>
   PrivateKey_bitLength (spec_crypto (delayed_prime 1))
     \<lparr>priv_d = 33, priv_p = Some 11, priv_q = Some 5, priv_phi = Some 40,
      priv_publicKey = \<lparr>pub_e = 65537, pub_n = 55\<rparr>\<rparr> = 6"
  using generated_modulus_bitLength [OF demo_run] by simp

section \<open>The algorithm of generateRandomKeys\<close>

lemma round_state_Suc_right:
  "round_state c B s (Suc k) = snd (snd (sample_round c B (round_state c B s k)))"
  by (induction k arbitrary: s) simp_all

lemma sample_round_calls:
  "fst (sample_round c B s) = fst (crypto_prime c (B div 2 + 1) s)"
  "fst (snd (sample_round c B s)) =
     fst (crypto_prime c (B div 2) (snd (crypto_prime c (B div 2 + 1) s)))"
  "snd (snd (sample_round c B s)) =
     snd (crypto_prime c (B div 2) (snd (crypto_prime c (B div 2 + 1) s)))"
  by (simp_all add: sample_round_def Let_def split: prod.splits)

text \<open>
  C3. \<open>generateRandomKeys(B)\<close> follows the algorithm of the specification. Round \<open>k\<close> asks the
  prime source for \<open>p\<close> with \<open>floor(B/2) + 1\<close> bits and then for \<open>q\<close> with \<open>floor(B/2)\<close> bits,
  both on the state the round before left, so no prime of a rejected round is used again.
  The call returns exactly when some round passes the combined predicate, with the keys
  made of the primes of the first such round: \<open>n = p * q\<close>, \<open>\<phi> = (p - 1) * (q - 1)\<close> and
  \<open>d = modInv(65537, \<phi>)\<close>, computed once, after the loop.
\<close>

theorem generateRandomKeys_algorithm:
  "(generateRandomKeys c (Some B) s = Some (res, s') \<longleftrightarrow>
      (\<exists>k. round_ok c B s k \<and> (\<forall>j<k. \<not> round_ok c B s j) \<and>
           s' = round_state c B s (Suc k) \<and>
           res = keys_of_primes c (round_p c B s k) (round_q c B s k))) \<and>
   round_state c B s 0 = s \<and>
   round_p c B s k = fst (crypto_prime c (B div 2 + 1) (round_state c B s k)) \<and>
   round_q c B s k =
     fst (crypto_prime c (B div 2)
           (snd (crypto_prime c (B div 2 + 1) (round_state c B s k)))) \<and>
   round_state c B s (Suc k) =
     snd (crypto_prime c (B div 2)
           (snd (crypto_prime c (B div 2 + 1) (round_state c B s k)))) \<and>
   (round_ok c B s k \<longleftrightarrow>
      round_p c B s k \<noteq> round_q c B s k \<and>
      crypto_bitLength c (round_p c B s k * round_q c B s k) = B \<and>
      crypto_gcd c ((round_p c B s k - 1) * (round_q c B s k - 1)) 65537 = 1)"
proof (intro conjI)
  show "generateRandomKeys c (Some B) s = Some (res, s') \<longleftrightarrow>
      (\<exists>k. round_ok c B s k \<and> (\<forall>j<k. \<not> round_ok c B s j) \<and>
           s' = round_state c B s (Suc k) \<and>
           res = keys_of_primes c (round_p c B s k) (round_q c B s k))"
  proof
    assume "generateRandomKeys c (Some B) s = Some (res, s')"
    then show "\<exists>k. round_ok c B s k \<and> (\<forall>j<k. \<not> round_ok c B s j) \<and>
           s' = round_state c B s (Suc k) \<and>
           res = keys_of_primes c (round_p c B s k) (round_q c B s k)"
      by (rule generateRandomKeys_Some_round)
  next
    assume "\<exists>k. round_ok c B s k \<and> (\<forall>j<k. \<not> round_ok c B s j) \<and>
           s' = round_state c B s (Suc k) \<and>
           res = keys_of_primes c (round_p c B s k) (round_q c B s k)"
    then obtain k where "round_ok c B s k" "\<forall>j<k. \<not> round_ok c B s j"
      "s' = round_state c B s (Suc k)"
      "res = keys_of_primes c (round_p c B s k) (round_q c B s k)" by blast
    then show "generateRandomKeys c (Some B) s = Some (res, s')"
      by (simp add: generateRandomKeys_first_ok)
  qed
next
  show "round_state c B s 0 = s" by simp
next
  show "round_p c B s k = fst (crypto_prime c (B div 2 + 1) (round_state c B s k))"
    by (simp add: round_p_def sample_round_calls)
next
  show "round_q c B s k =
     fst (crypto_prime c (B div 2)
           (snd (crypto_prime c (B div 2 + 1) (round_state c B s k))))"
    by (simp add: round_q_def sample_round_calls)
next
  show "round_state c B s (Suc k) =
     snd (crypto_prime c (B div 2)
           (snd (crypto_prime c (B div 2 + 1) (round_state c B s k))))"
    by (simp only: round_state_Suc_right sample_round_calls)
next
  show "round_ok c B s k \<longleftrightarrow>
      round_p c B s k \<noteq> round_q c B s k \<and>
      crypto_bitLength c (round_p c B s k * round_q c B s k) = B \<and>
      crypto_gcd c ((round_p c B s k - 1) * (round_q c B s k - 1)) 65537 = 1"
    by (simp add: round_ok_def gate_def)
qed

lemma delayed_round_state:
  "round_state (spec_crypto (delayed_prime N)) B s k = s + 2 * k"
  by (induction k arbitrary: s)
     (simp_all add: sample_round_calls spec_crypto_simps delayed_prime_def)

lemma delayed_round_p:
  "round_p (spec_crypto (delayed_prime N)) 6 0 k = (if k < N then 13 else 11)"
  by (simp add: round_p_def delayed_round_state sample_round_calls spec_crypto_simps
      delayed_prime_def)

lemma delayed_round_q: "round_q (spec_crypto (delayed_prime N)) 6 0 k = 5"
  by (simp add: round_q_def delayed_round_state sample_round_calls spec_crypto_simps
      delayed_prime_def)

lemma bitlen_65: "bitlen 65 = 7"
  by code_simp

lemma bitlen_55: "bitlen 55 = 6"
  by code_simp

lemma gcd_40_65537: "gcd (40::int) 65537 = 1"
  by code_simp

lemma delayed_round_ok: "round_ok (spec_crypto (delayed_prime N)) 6 0 k \<longleftrightarrow> N \<le> k"
  by (simp add: round_ok_def gate_def delayed_round_p delayed_round_q spec_crypto_simps
      bitlen_65 bitlen_55 gcd_40_65537)

lemma spec_modInv_65537_40: "spec_modInv 65537 40 = Some 33"
  by code_simp

lemma delayed_keys:
  "keys_of_primes (spec_crypto (delayed_prime N)) 11 5 =
   Inr \<lparr>kp_publicKey = \<lparr>pub_e = 65537, pub_n = 55\<rparr>,
        kp_privateKey =
          \<lparr>priv_d = 33, priv_p = Some 11, priv_q = Some 5, priv_phi = Some 40,
           priv_publicKey = \<lparr>pub_e = 65537, pub_n = 55\<rparr>\<rparr>\<rparr>"
  by (simp add: keys_of_primes_def spec_crypto_simps spec_modInv_65537_40 nonzero_or_null_def)

theorem generateRandomKeys_algorithm_witness:
  "generateRandomKeys (spec_crypto (delayed_prime 1)) (Some 6) 0 =
   Some (Inr \<lparr>kp_publicKey = \<lparr>pub_e = 65537, pub_n = 55\<rparr>,
              kp_privateKey =
                \<lparr>priv_d = 33, priv_p = Some 11, priv_q = Some 5, priv_phi = Some 40,
                 priv_publicKey = \<lparr>pub_e = 65537, pub_n = 55\<rparr>\<rparr>\<rparr>, 4)"
proof -
  let ?c = "spec_crypto (delayed_prime 1)"
  let ?kp = "\<lparr>kp_publicKey = \<lparr>pub_e = 65537, pub_n = 55\<rparr>,
              kp_privateKey =
                \<lparr>priv_d = 33, priv_p = Some 11, priv_q = Some 5, priv_phi = Some 40,
                 priv_publicKey = \<lparr>pub_e = 65537, pub_n = 55\<rparr>\<rparr>\<rparr>"
  have "round_ok ?c 6 0 1 \<and> (\<forall>j<1. \<not> round_ok ?c 6 0 j) \<and>
      (4::nat) = round_state ?c 6 0 (Suc 1) \<and>
      Inr ?kp = keys_of_primes ?c (round_p ?c 6 0 1) (round_q ?c 6 0 1)"
    by (simp add: delayed_round_ok delayed_round_state delayed_round_p delayed_round_q
        delayed_keys del: round_state.simps)
  then have "\<exists>k. round_ok ?c 6 0 k \<and> (\<forall>j<k. \<not> round_ok ?c 6 0 j) \<and>
      (4::nat) = round_state ?c 6 0 (Suc k) \<and>
      Inr ?kp = keys_of_primes ?c (round_p ?c 6 0 k) (round_q ?c 6 0 k)" ..
  with generateRandomKeys_algorithm [of ?c 6 0 "Inr ?kp" 4] show ?thesis by blast
qed

section \<open>The loop has no bound\<close>

lemma stuck_round_state: "round_state (spec_crypto stuck_prime) B s k = s + 2 * k"
  by (induction k arbitrary: s)
     (simp_all add: sample_round_calls spec_crypto_simps stuck_prime_def)

lemma stuck_round_ok: "\<not> round_ok (spec_crypto stuck_prime) 6 s k"
  by (simp add: round_ok_def gate_def round_p_def round_q_def sample_round_calls
      spec_crypto_simps stuck_prime_def bitlen_65)

lemma delayed_run:
  "generateRandomKeys (spec_crypto (delayed_prime N)) (Some 6) 0 =
   Some (Inr \<lparr>kp_publicKey = \<lparr>pub_e = 65537, pub_n = 55\<rparr>,
              kp_privateKey =
                \<lparr>priv_d = 33, priv_p = Some 11, priv_q = Some 5, priv_phi = Some 40,
                 priv_publicKey = \<lparr>pub_e = 65537, pub_n = 55\<rparr>\<rparr>\<rparr>, 2 * Suc N)"
proof -
  let ?c = "spec_crypto (delayed_prime N)"
  have ok: "round_ok ?c 6 0 N" and before: "\<forall>j<N. \<not> round_ok ?c 6 0 j"
    by (simp_all add: delayed_round_ok)
  show ?thesis
    unfolding generateRandomKeys_first_ok[OF ok before]
    by (simp add: delayed_round_p delayed_round_q delayed_keys delayed_round_state
        del: round_state.simps)
qed

text \<open>
  C6. The generation loop has no iteration cap. The call returns exactly when some round
  passes the combined predicate; when the first such round is round \<open>k\<close>, whatever \<open>k\<close> is,
  it returns what the code after the loop makes of that round's primes, never a failure
  for having retried too often. For every \<open>N\<close> there is a run that rejects \<open>N\<close> rounds and
  then returns a keypair, and there is a run that never returns.
\<close>

theorem generateRandomKeys_unbounded_retry:
  "(generateRandomKeys c (Some B) s \<noteq> None \<longleftrightarrow> (\<exists>k. round_ok c B s k)) \<and>
   (round_ok c B s k \<and> (\<forall>j<k. \<not> round_ok c B s j) \<longrightarrow>
      generateRandomKeys c (Some B) s =
        Some (keys_of_primes c (round_p c B s k) (round_q c B s k),
              round_state c B s (Suc k))) \<and>
   (\<forall>N. \<exists>c' :: nat crypto.
      (\<forall>j<N. \<not> round_ok c' 6 0 j) \<and>
      (\<exists>kp. generateRandomKeys c' (Some 6) 0 = Some (Inr kp, 2 * Suc N))) \<and>
   (\<exists>c' :: nat crypto. generateRandomKeys c' (Some 6) 0 = None)"
proof (intro conjI allI impI)
  show "generateRandomKeys c (Some B) s \<noteq> None \<longleftrightarrow> (\<exists>k. round_ok c B s k)"
    by (simp add: generateRandomKeys_None_iff)
next
  assume "round_ok c B s k \<and> (\<forall>j<k. \<not> round_ok c B s j)"
  then show "generateRandomKeys c (Some B) s =
        Some (keys_of_primes c (round_p c B s k) (round_q c B s k),
              round_state c B s (Suc k))"
    by (intro generateRandomKeys_first_ok) blast+
next
  fix N
  have "(\<forall>j<N. \<not> round_ok (spec_crypto (delayed_prime N)) 6 0 j) \<and>
      (\<exists>kp. generateRandomKeys (spec_crypto (delayed_prime N)) (Some 6) 0 =
         Some (Inr kp, 2 * Suc N))"
    by (simp add: delayed_round_ok delayed_run)
  then show "\<exists>c' :: nat crypto.
      (\<forall>j<N. \<not> round_ok c' 6 0 j) \<and>
      (\<exists>kp. generateRandomKeys c' (Some 6) 0 = Some (Inr kp, 2 * Suc N))" ..
next
  have "generateRandomKeys (spec_crypto stuck_prime) (Some 6) (0::nat) = None"
    by (simp add: generateRandomKeys_None_iff stuck_round_ok)
  then show "\<exists>c' :: nat crypto. generateRandomKeys c' (Some 6) 0 = None" ..
qed

theorem generateRandomKeys_unbounded_retry_witness:
  "generateRandomKeys (spec_crypto (delayed_prime 1000)) (Some 6) 0 =
     Some (keys_of_primes (spec_crypto (delayed_prime 1000)) 11 5, 2002) \<and>
   generateRandomKeys (spec_crypto stuck_prime) (Some 6) (0::nat) = None"
proof -
  have "generateRandomKeys (spec_crypto stuck_prime) (Some 6) (0::nat) \<noteq> None \<longleftrightarrow>
      (\<exists>k. round_ok (spec_crypto stuck_prime) 6 0 k)"
    using generateRandomKeys_unbounded_retry [of "spec_crypto stuck_prime" 6 0 0]
    by (rule conjunct1)
  then have "generateRandomKeys (spec_crypto stuck_prime) (Some 6) (0::nat) = None"
    using stuck_round_ok by blast
  moreover have "generateRandomKeys (spec_crypto (delayed_prime 1000)) (Some 6) 0 =
     Some (keys_of_primes (spec_crypto (delayed_prime 1000)) 11 5, 2002)"
    using generateRandomKeys_unbounded_retry [of "spec_crypto (delayed_prime 1000)" 6 0 1000]
    by (simp add: delayed_round_ok delayed_round_p delayed_round_q delayed_round_state
        del: round_state.simps)
  ultimately show ?thesis by simp
qed

section \<open>The two variants\<close>

text \<open>
  C9. The two variants of the module agree: on the same collaborators, the same argument
  and the same state of the prime source, \<open>generateRandomKeys\<close>, the constructors, the
  getters and the four keyed operations of the second variant return what those of the
  first return.
\<close>

theorem variants_equivalent:
  "generateRandomKeys2 c arg s = generateRandomKeys c arg s \<and>
   PublicKey_constructor2 e n = PublicKey_constructor e n \<and>
   PrivateKey_constructor2 d p q phi pk = PrivateKey_constructor d p q phi pk \<and>
   PublicKey_bitLength2 c pub = PublicKey_bitLength c pub \<and>
   PublicKey_encrypt2 c m pub = PublicKey_encrypt c m pub \<and>
   PublicKey_verify2 c m pub = PublicKey_verify c m pub \<and>
   PrivateKey_bitLength2 c priv = PrivateKey_bitLength c priv \<and>
   PrivateKey_n2 priv = PrivateKey_n priv \<and>
   PrivateKey_sign2 c m priv = PrivateKey_sign c m priv \<and>
   PrivateKey_decrypt2 c m priv = PrivateKey_decrypt c m priv"
  by (simp add: generateRandomKeys2_eq constructors2_eq
      PublicKey_bitLength2_def PublicKey_bitLength_def
      PublicKey_encrypt2_def PublicKey_encrypt_def PublicKey_verify2_def PublicKey_verify_def
      PrivateKey_bitLength2_def PrivateKey_bitLength_def PrivateKey_n2_def PrivateKey_n_def
      PrivateKey_sign2_def PrivateKey_sign_def PrivateKey_decrypt2_def PrivateKey_decrypt_def)

theorem variants_equivalent_witness:
  "generateRandomKeys2 (spec_crypto (delayed_prime 1)) (Some 6) 0 =
     Some (Inr \<lparr>kp_publicKey = \<lparr>pub_e = 65537, pub_n = 55\<rparr>,
              kp_privateKey =
                \<lparr>priv_d = 33, priv_p = Some 11, priv_q = Some 5, priv_phi = Some 40,
                 priv_publicKey = \<lparr>pub_e = 65537, pub_n = 55\<rparr>\<rparr>\<rparr>, 4) \<and>
   generateRandomKeys2 (spec_crypto stuck_prime) (Some 6) (0::nat) = None \<and>
   PublicKey_encrypt2 (spec_crypto stuck_prime) 42 \<lparr>pub_e = 3, pub_n = 55\<rparr> =
     (3, \<lparr>pub_e = 3, pub_n = 55\<rparr>)"
proof -
  have none: "generateRandomKeys (spec_crypto stuck_prime) (Some 6) (0::nat) = None"
    by (simp add: generateRandomKeys_None_iff stuck_round_ok)
  have enc: "PublicKey_encrypt (spec_crypto stuck_prime) 42 \<lparr>pub_e = 3, pub_n = 55\<rparr> =
     (3, \<lparr>pub_e = 3, pub_n = 55\<rparr>)"
    by (simp add: PublicKey_encrypt_def spec_crypto_simps spec_modPow_def)
  show ?thesis
    using variants_equivalent [of "spec_crypto (delayed_prime 1)" "Some 6" 0]
      variants_equivalent [of "spec_crypto stuck_prime" "Some 6" 0 _ _ _ _ _ _ _
        "\<lparr>pub_e = 3, pub_n = 55\<rparr>" 42]
      demo_run none enc
    by simp
qed

section \<open>The exponents of a generated keypair\<close>

lemma round_p_prime: "round_p c B s k = fst (crypto_prime c (B div 2 + 1) (round_state c B s k))"
  by (simp add: round_p_def sample_round_calls)

lemma round_q_prime:
  "round_q c B s k =
   fst (crypto_prime c (B div 2) (snd (crypto_prime c (B div 2 + 1) (round_state c B s k))))"
  by (simp add: round_q_def sample_round_calls)

lemma generateRandomKeys_arg:
  "generateRandomKeys c arg s =
   generateRandomKeys c (Some (case arg of None \<Rightarrow> 2048 | Some B \<Rightarrow> B)) s"
  by (cases arg) (simp_all add: generateRandomKeys_default)

lemma modInv_contractD:
  assumes "modInv_contract c" and "0 < m"
  shows "crypto_modInv c a m = None \<Longrightarrow> gcd a m \<noteq> 1"
    and "crypto_modInv c a m = Some x \<Longrightarrow> 0 \<le> x \<and> x < m \<and> a * x mod m = 1 mod m"
proof -
  from assms have *: "case crypto_modInv c a m of None \<Rightarrow> gcd a m \<noteq> 1
      | Some x \<Rightarrow> gcd a m = 1 \<and> 0 \<le> x \<and> x < m \<and> a * x mod m = 1 mod m"
    unfolding modInv_contract_def by blast
  show "crypto_modInv c a m = None \<Longrightarrow> gcd a m \<noteq> 1"
    using * by simp
  show "crypto_modInv c a m = Some x \<Longrightarrow> 0 \<le> x \<and> x < m \<and> a * x mod m = 1 mod m"
    using * by simp
qed

lemma bitLength_contractD:
  "bitLength_contract c \<Longrightarrow> 0 < x \<Longrightarrow> 2 ^ nat (crypto_bitLength c x - 1) \<le> x"
  by (simp add: bitLength_contract_def)

text \<open>
  C5. Where the collaborators meet their contracts and the prime source returns positive
  numbers, a call of \<open>generateRandomKeys(B)\<close> with \<open>B \<ge> 128\<close> that returns, returns a keypair:
  \<open>modInv\<close> does not fail. The public exponent is \<open>65537\<close>, it lies strictly between \<open>1\<close>
  and \<open>n\<close>, and \<open>gcd(e, (p - 1) * (q - 1)) = 1\<close> for the stored \<open>p\<close> and \<open>q\<close>, whose product is
  \<open>n\<close>.
\<close>

theorem generated_exponent_invertible:
  assumes bl: "bitLength_contract c" and g: "gcd_contract c" and inv: "modInv_contract c"
    and pos: "positive_primes c" and B: "128 \<le> B"
    and gen: "generateRandomKeys c (Some B) s = Some (res, s')"
  shows "\<exists>kp p q. res = Inr kp \<and>
    pub_e (kp_publicKey kp) = 65537 \<and>
    1 < pub_e (kp_publicKey kp) \<and> pub_e (kp_publicKey kp) < pub_n (kp_publicKey kp) \<and>
    priv_p (kp_privateKey kp) = Some p \<and> priv_q (kp_privateKey kp) = Some q \<and>
    pub_n (kp_publicKey kp) = p * q \<and>
    priv_phi (kp_privateKey kp) = Some ((p - 1) * (q - 1)) \<and>
    gcd (pub_e (kp_publicKey kp)) ((p - 1) * (q - 1)) = 1 \<and>
    crypto_modInv c 65537 ((p - 1) * (q - 1)) = Some (priv_d (kp_privateKey kp))"
proof -
  from generateRandomKeys_Some_round[OF gen] obtain k where
    ok: "round_ok c B s k" and
    res: "res = keys_of_primes c (round_p c B s k) (round_q c B s k)" by blast
  define p where "p = round_p c B s k"
  define q where "q = round_q c B s k"
  let ?phi = "(p - 1) * (q - 1)"
  have p0: "0 < p" and q0: "0 < q"
    using pos by (simp_all add: p_def q_def round_p_prime round_q_prime positive_primes_def)
  from round_ok_gate[OF ok] have bits: "crypto_bitLength c (p * q) = B"
    and cg: "crypto_gcd c ?phi 65537 = 1"
    by (simp_all add: p_def q_def)
  from cg g have gcd1: "gcd ?phi 65537 = 1" by (simp add: gcd_contract_def)
  have "?phi \<noteq> 0"
  proof
    assume "?phi = 0"
    with gcd1 have "gcd (0::int) 65537 = 1" by simp
    then show False by simp
  qed
  moreover have "0 \<le> ?phi" using p0 q0 by simp
  ultimately have phi0: "0 < ?phi" by linarith
  have gcd2: "gcd (65537::int) ?phi = 1" using gcd1 by (simp add: gcd.commute)
  obtain d where d: "crypto_modInv c 65537 ?phi = Some d"
    using modInv_contractD(1)[OF inv phi0, of 65537] gcd2
    by (cases "crypto_modInv c 65537 ?phi") auto
  have n0: "0 < p * q" using p0 q0 by simp
  have "(2::int) ^ 127 \<le> 2 ^ nat (B - 1)"
    using B by (intro power_increasing) auto
  also have "\<dots> \<le> p * q" using bitLength_contractD[OF bl n0] bits by simp
  finally have big: "65537 < p * q" by simp
  define kp where "kp =
    \<lparr>kp_publicKey = \<lparr>pub_e = 65537, pub_n = p * q\<rparr>,
     kp_privateKey =
       \<lparr>priv_d = d, priv_p = Some p, priv_q = Some q, priv_phi = Some ?phi,
        priv_publicKey = \<lparr>pub_e = 65537, pub_n = p * q\<rparr>\<rparr>\<rparr>"
  have "p \<noteq> 1" and "q \<noteq> 1" using phi0 by auto
  then have "res = Inr kp"
    using res d p0 q0
    by (simp add: keys_of_primes_def nonzero_or_null_def kp_def p_def[symmetric] q_def[symmetric])
  then show ?thesis
    using big gcd2 d by (intro exI[of _ kp] exI[of _ p] exI[of _ q]) (simp add: kp_def)
qed

lemma bitlen_unique:
  assumes "2 ^ k \<le> x" and "x < 2 ^ Suc k"
  shows "bitlen x = int (Suc k)"
proof -
  have x: "0 < x" using assms(1) by (rule less_le_trans[rotated]) simp
  define b where "b = nat (bitlen x)"
  have "bitlen x \<noteq> 0" using x by (simp add: bitlen_eq_zero_iff)
  then have b0: "0 < bitlen x" using bitlen_nonneg[of x] by linarith
  then have bb: "bitlen x = int b" "nat (bitlen x - 1) = b - 1" by (simp_all add: b_def)
  from bitlen_bounds[OF x] have lo: "2 ^ (b - 1) \<le> x" and hi: "x < 2 ^ b"
    unfolding bb(2) by (simp_all add: b_def)
  have "(2::int) ^ (b - 1) < 2 ^ Suc k" using lo assms(2) by (rule le_less_trans)
  then have "b - 1 < Suc k" by (simp only: power_strict_increasing_iff[of 2] one_less_numeral_iff semiring_norm)
  moreover have "(2::int) ^ k < 2 ^ b" using assms(1) hi by (rule le_less_trans)
  then have "k < b" by (simp only: power_strict_increasing_iff[of 2] one_less_numeral_iff semiring_norm)
  ultimately have "b = Suc k" by linarith
  then show ?thesis by (simp add: bb)
qed

lemma bitlen_128: "bitlen 340282366920938462614824380041128836353 = 128"
  using bitlen_unique[of 127 340282366920938462614824380041128836353] by simp

lemma gcd_128: "gcd (340282366920938462577930891893709733168::int) 65537 = 1"
  by code_simp

lemma modInv_unique:
  assumes "0 < (m::int)" and "a * x mod m = 1 mod m" and "a * y mod m = 1 mod m"
    and "0 \<le> x" "x < m" "0 \<le> y" "y < m"
  shows "x = y"
proof -
  have "x mod m = x * 1 mod m" by simp
  also have "\<dots> = x * (1 mod m) mod m" by (simp only: mod_mult_right_eq)
  also have "\<dots> = x * (a * y mod m) mod m" by (simp only: assms(3))
  also have "\<dots> = x * (a * y) mod m" by (simp only: mod_mult_right_eq)
  also have "\<dots> = (a * x) * y mod m" by (simp add: mult_ac)
  also have "\<dots> = (a * x mod m) * y mod m" by (simp only: mod_mult_left_eq)
  also have "\<dots> = (1 mod m) * y mod m" by (simp only: assms(2))
  also have "\<dots> = 1 * y mod m" by (simp only: mod_mult_left_eq)
  also have "\<dots> = y mod m" by simp
  finally have "x mod m = y mod m" .
  then show ?thesis using assms(4-7) by simp
qed

lemma spec_modInv_eqI:
  assumes m: "0 < m" and g: "gcd a m = 1"
    and d: "0 \<le> d" "d < m" "a * d mod m = 1 mod m"
  shows "spec_modInv a m = Some d"
proof -
  define x where "x = fst (bezw (nat (a mod m)) (nat m)) mod m"
  have sx: "spec_modInv a m = Some x"
    by (simp only: spec_modInv_def x_def m g simp_thms if_True)
  have inv: "a * x mod m = 1 mod m"
    unfolding x_def by (rule spec_modInv_inverse[OF m g])
  have x0: "0 \<le> x" unfolding x_def by (rule pos_mod_sign[OF m])
  have xm: "x < m" unfolding x_def by (rule pos_mod_bound[OF m])
  have "x = d" by (rule modInv_unique[OF m inv d(3) x0 xm d(1) d(2)])
  with sx show ?thesis by (simp only:)
qed

lemma gcd_128': "gcd (65537::int) 340282366920938462577930891893709733168 = 1"
  using gcd_128 by (simp only: gcd.commute)

lemma spec_modInv_128:
  "spec_modInv 65537 340282366920938462577930891893709733168 =
   Some 237798375308788327930888763871401072209"
  by (rule spec_modInv_eqI[OF _ gcd_128']) simp_all

lemma prime128_round_ok: "round_ok (spec_crypto prime128) 128 0 0"
  by (simp add: round_ok_def gate_def round_p_def round_q_def sample_round_calls
      spec_crypto_simps prime128_def bitlen_128 gcd_128)

lemma run128:
  "generateRandomKeys (spec_crypto prime128) (Some 128) 0 =
   Some (Inr \<lparr>kp_publicKey =
                \<lparr>pub_e = 65537, pub_n = 340282366920938462614824380041128836353\<rparr>,
              kp_privateKey =
                \<lparr>priv_d = 237798375308788327930888763871401072209,
                 priv_p = Some 18446744073709551629, priv_q = Some 18446744073709551557,
                 priv_phi = Some 340282366920938462577930891893709733168,
                 priv_publicKey =
                   \<lparr>pub_e = 65537, pub_n = 340282366920938462614824380041128836353\<rparr>\<rparr>\<rparr>,
         2)"
proof -
  have before: "\<forall>j<0. \<not> round_ok (spec_crypto prime128) 128 0 j" by simp
  show ?thesis
    unfolding generateRandomKeys_first_ok[OF prime128_round_ok before]
    by (simp add: round_p_def round_q_def sample_round_calls spec_crypto_simps prime128_def
        keys_of_primes_def spec_modInv_128 nonzero_or_null_def)
qed

theorem generated_exponent_invertible_witness:
  "\<exists>kp p q.
    (Inr \<lparr>kp_publicKey =
                \<lparr>pub_e = 65537, pub_n = 340282366920938462614824380041128836353\<rparr>,
              kp_privateKey =
                \<lparr>priv_d = 237798375308788327930888763871401072209,
                 priv_p = Some 18446744073709551629, priv_q = Some 18446744073709551557,
                 priv_phi = Some 340282366920938462577930891893709733168,
                 priv_publicKey =
                   \<lparr>pub_e = 65537, pub_n = 340282366920938462614824380041128836353\<rparr>\<rparr>\<rparr>
       :: js_error + KeyPair) = Inr kp \<and>
    pub_e (kp_publicKey kp) = 65537 \<and>
    1 < pub_e (kp_publicKey kp) \<and> pub_e (kp_publicKey kp) < pub_n (kp_publicKey kp) \<and>
    priv_p (kp_privateKey kp) = Some p \<and> priv_q (kp_privateKey kp) = Some q \<and>
    pub_n (kp_publicKey kp) = p * q \<and>
    priv_phi (kp_privateKey kp) = Some ((p - 1) * (q - 1)) \<and>
    gcd (pub_e (kp_publicKey kp)) ((p - 1) * (q - 1)) = 1 \<and>
    crypto_modInv (spec_crypto prime128) 65537 ((p - 1) * (q - 1)) =
      Some (priv_d (kp_privateKey kp))"
proof -
  have B: "(128::int) \<le> 128" by simp
  show ?thesis
    by (rule generated_exponent_invertible
        [OF spec_bitLength_contract spec_gcd_contract spec_modInv_contract
          prime128_positive B run128])
qed

section \<open>The round trip\<close>

text \<open>
  C1. Where the prime source returns genuine primes and \<open>modInv\<close> and \<open>modPow\<close> meet their
  contracts, every keypair that \<open>generateRandomKeys\<close> returns satisfies the RSA round trip:
  for \<open>0 \<le> m < n\<close>, \<open>decrypt(encrypt(m)) = m\<close> and \<open>verify(sign(m)) = m\<close>.
\<close>

theorem rsa_round_trip:
  assumes pr: "genuine_primes c" and inv: "modInv_contract c" and pw: "modPow_contract c"
    and gen: "generateRandomKeys c arg s = Some (Inr kp, s')"
    and m: "0 \<le> m" "m < pub_n (kp_publicKey kp)"
  shows "fst (PrivateKey_decrypt c (fst (PublicKey_encrypt c m (kp_publicKey kp)))
            (kp_privateKey kp)) = m \<and>
    fst (PublicKey_verify c (fst (PrivateKey_sign c m (kp_privateKey kp)))
            (kp_publicKey kp)) = m"
proof -
  define B where "B = (case arg of None \<Rightarrow> 2048 | Some B \<Rightarrow> B)"
  from gen have "generateRandomKeys c (Some B) s = Some (Inr kp, s')"
    by (simp add: B_def generateRandomKeys_arg[symmetric])
  from generateRandomKeys_Some_round[OF this] obtain k where
    ok: "round_ok c B s k" and
    kp: "keys_of_primes c (round_p c B s k) (round_q c B s k) = Inr kp" by auto
  define p where "p = round_p c B s k"
  define q where "q = round_q c B s k"
  let ?phi = "(p - 1) * (q - 1)"
  let ?n = "p * q"
  define d where "d = priv_d (kp_privateKey kp)"
  have p: "is_prime p" and q: "is_prime q"
    using pr by (simp_all add: p_def q_def round_p_prime round_q_prime genuine_primes_def)
  have pq: "p \<noteq> q" using round_ok_gate[OF ok] by (simp add: p_def q_def)
  have p1: "1 < p" and q1: "1 < q" using p q by (simp_all add: is_prime_gt_1)
  have phi0: "0 < ?phi" using p1 q1 by simp
  have n0: "0 < ?n" using p1 q1 by simp
  from keys_of_primes_Inr[OF kp]
  have pub: "kp_publicKey kp = \<lparr>pub_e = 65537, pub_n = ?n\<rparr>"
    and priv: "priv_publicKey (kp_privateKey kp) = \<lparr>pub_e = 65537, pub_n = ?n\<rparr>"
    and dd: "crypto_modInv c 65537 ?phi = Some d"
    by (simp_all add: p_def q_def d_def)
  from modInv_contractD(2)[OF inv phi0 dd]
  have d0: "0 \<le> d" and ed: "65537 * d mod ?phi = 1 mod ?phi" by simp_all
  have de: "d * 65537 mod ?phi = 1 mod ?phi" using ed by (simp add: mult.commute)
  have mn: "m < ?n" using m(2) pub by simp
  have enc: "fst (PublicKey_encrypt c m (kp_publicKey kp)) = m ^ nat 65537 mod ?n"
    using modPow_contractD[OF pw, of 65537 ?n m] n0
    by (simp add: keyed_operation_results pub)
  have dec: "fst (PrivateKey_decrypt c x (kp_privateKey kp)) = x ^ nat d mod ?n" for x
    using modPow_contractD[OF pw d0 n0, of x]
    by (simp add: keyed_operation_results PrivateKey_n_def priv d_def)
  have sgn: "fst (PrivateKey_sign c m (kp_privateKey kp)) = m ^ nat d mod ?n"
    using modPow_contractD[OF pw d0 n0, of m]
    by (simp add: keyed_operation_results PrivateKey_n_def priv d_def)
  have ver: "fst (PublicKey_verify c x (kp_publicKey kp)) = x ^ nat 65537 mod ?n" for x
    using modPow_contractD[OF pw, of 65537 ?n x] n0
    by (simp add: keyed_operation_results pub)
  have "(m ^ nat 65537 mod ?n) ^ nat d mod ?n = m"
    by (rule rsa_int[OF p q pq _ d0 ed m(1) mn]) simp
  moreover have "(m ^ nat d mod ?n) ^ nat 65537 mod ?n = m"
    by (rule rsa_int[OF p q pq d0 _ de m(1) mn]) simp
  ultimately show ?thesis by (simp only: enc dec sgn ver)
qed

theorem rsa_round_trip_witness:
  "fst (PrivateKey_decrypt (spec_crypto (delayed_prime 1))
         (fst (PublicKey_encrypt (spec_crypto (delayed_prime 1)) 42
                \<lparr>pub_e = 65537, pub_n = 55\<rparr>))
         \<lparr>priv_d = 33, priv_p = Some 11, priv_q = Some 5, priv_phi = Some 40,
          priv_publicKey = \<lparr>pub_e = 65537, pub_n = 55\<rparr>\<rparr>) = 42 \<and>
   fst (PublicKey_verify (spec_crypto (delayed_prime 1))
         (fst (PrivateKey_sign (spec_crypto (delayed_prime 1)) 42
                \<lparr>priv_d = 33, priv_p = Some 11, priv_q = Some 5, priv_phi = Some 40,
                 priv_publicKey = \<lparr>pub_e = 65537, pub_n = 55\<rparr>\<rparr>))
         \<lparr>pub_e = 65537, pub_n = 55\<rparr>) = 42"
proof -
  have m: "(0::int) \<le> 42"
    "42 < pub_n (kp_publicKey
      \<lparr>kp_publicKey = \<lparr>pub_e = 65537, pub_n = 55\<rparr>,
       kp_privateKey =
         \<lparr>priv_d = 33, priv_p = Some 11, priv_q = Some 5, priv_phi = Some 40,
          priv_publicKey = \<lparr>pub_e = 65537, pub_n = 55\<rparr>\<rparr>\<rparr>)"
    by simp_all
  from rsa_round_trip [OF delayed_prime_genuine spec_modInv_contract spec_modPow_contract
      demo_run m]
  show ?thesis by (simp only: KeyPair.select_convs)
qed

end
